theory Spec2Isabelle
  imports Main
begin

section \<open>Data model\<close>

text \<open>
  The module \<^verbatim>\<open>dioptra/task_engine/error_message.py\<close> turns jsonschema validation
  errors into readable messages.  Its inputs are JSON documents (the schema, the
  instance fragments), jsonschema paths (lists of strings and integers) and
  \<^verbatim>\<open>ValidationError\<close> objects.

  A JSON value is what Python's \<^verbatim>\<open>json\<close> module produces: \<^verbatim>\<open>None\<close>, a bool, an int, a
  string, a list or a dict with string keys.  A dict is an association list, read with
  \<^const>\<open>map_of\<close> (the first binding of a key is the dict's entry).  JSON numbers with a
  fraction (Python floats) are outside the model.
\<close>

datatype json =
    JNull
  | JBool bool
  | JInt int
  | JStr string
  | JList "json list"
  | JDict "(string \<times> json) list"

text \<open>One element of a jsonschema path: \<^verbatim>\<open>Union[int, str]\<close>.\<close>

datatype tok = TInt int | TStr string

text \<open>
  The exceptions the module can raise.  \<^verbatim>\<open>KeyError\<close> and \<^verbatim>\<open>IndexError\<close> are Python's two
  \<^verbatim>\<open>LookupError\<close>s.  \<^verbatim>\<open>RecursionError\<close> is what Python raises when the interpreter's
  recursion limit is reached.
\<close>

datatype error =
    KeyError
  | IndexError
  | TypeError
  | ValueError
  | AttributeError
  | AssertionError
  | RecursionError

fun is_lookup_error :: "error \<Rightarrow> bool" where
  "is_lookup_error KeyError = True"
| "is_lookup_error IndexError = True"
| "is_lookup_error _ = False"

subsection \<open>Python built-ins used by the module\<close>

text \<open>\<^verbatim>\<open>str(n)\<close> for an int: decimal digits, a leading minus sign when negative.\<close>

definition digit_char :: "nat \<Rightarrow> char" where
  "digit_char d = ''0123456789'' ! d"

fun str_nat :: "nat \<Rightarrow> string" where
  "str_nat n = (if n < 10 then [digit_char n] else str_nat (n div 10) @ [digit_char (n mod 10)])"

declare str_nat.simps [simp del]

definition str_int :: "int \<Rightarrow> string" where
  "str_int i = (if i < 0 then CHR ''-'' # str_nat (nat (- i)) else str_nat (nat i))"

text \<open>\<^verbatim>\<open>str(elt)\<close> for a path element.\<close>

fun str_tok :: "tok \<Rightarrow> string" where
  "str_tok (TStr s) = s"
| "str_tok (TInt i) = str_int i"

text \<open>\<^verbatim>\<open>sep.join(xs)\<close> for a list of strings.\<close>

fun str_join :: "string \<Rightarrow> string list \<Rightarrow> string" where
  "str_join sep [] = []"
| "str_join sep [x] = x"
| "str_join sep (x # y # ys) = x @ sep @ str_join sep (y # ys)"

text \<open>
  \<^verbatim>\<open>xs[i]\<close> for a Python list and an int: a negative index counts from the end, an index
  out of range raises \<^verbatim>\<open>IndexError\<close>.
\<close>

definition list_index :: "'a list \<Rightarrow> int \<Rightarrow> error + 'a" where
  "list_index xs i =
     (if 0 \<le> i \<and> i < int (length xs) then Inr (xs ! nat i)
      else if i < 0 \<and> - int (length xs) \<le> i then Inr (xs ! nat (int (length xs) + i))
      else Inl IndexError)"

section \<open>Indentation and path rendering\<close>

definition INDENT_SIZE :: nat where
  "INDENT_SIZE = 4"

text \<open>
  \<^verbatim>\<open>_indent_lines\<close>: every line gets \<^verbatim>\<open>" " * _INDENT_SIZE\<close> in front.  The source
  overwrites the list it is given and returns it; the model returns the new contents.
\<close>

definition indent_lines :: "string list \<Rightarrow> string list" where
  "indent_lines lines = map (\<lambda>line. replicate INDENT_SIZE CHR '' '' @ line) lines"

text \<open>\<^verbatim>\<open>_json_path_to_string\<close>: \<^verbatim>\<open>"/" + "/".join(str(elt) for elt in path)\<close>.\<close>

definition json_path_to_string :: "tok list \<Rightarrow> string" where
  "json_path_to_string path = ''/'' @ str_join ''/'' (map str_tok path)"

section \<open>Describing an instance path\<close>

text \<open>
  \<^verbatim>\<open>_instance_path_to_description\<close>.  The source collects \<^verbatim>\<open>message_parts\<close> and joins them
  with a space; when nothing was collected it falls back to the slash-joined path.
  Every \<^verbatim>\<open>instance_path[k]\<close> is a read that may raise \<^verbatim>\<open>IndexError\<close>, so the parts are
  computed in the error type and the function returns \<open>error + string\<close>.
\<close>

definition parameters_parts :: "tok list \<Rightarrow> error + string list" where
  "parameters_parts instance_path =
     (if length instance_path = 1 then Inr [''global parameters section'']
      else (case list_index instance_path 1 of
              Inl e \<Rightarrow> Inl e
            | Inr (TStr name) \<Rightarrow> Inr [''parameter'', ''\"'' @ name @ ''\"'']
            | Inr (TInt n) \<Rightarrow> Inr [''parameter'', ''#'' @ str_int (n + 1)]))"

definition tasks_parts :: "tok list \<Rightarrow> error + string list" where
  "tasks_parts instance_path =
     (if length instance_path = 1 then Inr [''tasks section'']
      else (case list_index instance_path 1 of
              Inl e \<Rightarrow> Inl e
            | Inr t1 \<Rightarrow>
                (let parts = [''task plugin \"'' @ str_tok t1 @ ''\"''] in
                 if length instance_path > 2 then
                   (case list_index instance_path 2 of
                      Inl e \<Rightarrow> Inl e
                    | Inr t2 \<Rightarrow>
                        if t2 = TStr ''outputs'' then Inr (parts @ [''outputs''])
                        else if t2 = TStr ''plugin'' then Inr (parts @ [''plugin ID''])
                        else Inr parts)
                 else Inr parts)))"

definition graph_parts :: "tok list \<Rightarrow> error + string list" where
  "graph_parts instance_path =
     (if length instance_path = 1 then Inr [''graph section'']
      else (case list_index instance_path 1 of
              Inl e \<Rightarrow> Inl e
            | Inr t1 \<Rightarrow>
                (let parts = [''step \"'' @ str_tok t1 @ ''\"''] in
                 if length instance_path > 2 then
                   (case list_index instance_path 2 of
                      Inl e \<Rightarrow> Inl e
                    | Inr t2 \<Rightarrow>
                        if t2 = TStr ''dependencies'' then Inr (parts @ [''dependencies''])
                        else Inr parts)
                 else Inr parts)))"

definition message_parts :: "tok list \<Rightarrow> error + string list" where
  "message_parts instance_path =
     (if length instance_path = 0 then Inr [''root level of experiment description'']
      else (case list_index instance_path 0 of
              Inl e \<Rightarrow> Inl e
            | Inr t0 \<Rightarrow>
                if t0 = TStr ''parameters'' then parameters_parts instance_path
                else if t0 = TStr ''tasks'' then tasks_parts instance_path
                else if t0 = TStr ''graph'' then graph_parts instance_path
                else Inr []))"

definition instance_path_to_description :: "tok list \<Rightarrow> error + string" where
  "instance_path_to_description instance_path =
     (case message_parts instance_path of
        Inl e \<Rightarrow> Inl e
      | Inr parts \<Rightarrow>
          if parts \<noteq> [] then Inr (str_join '' '' parts)
          else Inr (''experiment description location '' @ json_path_to_string instance_path))"

section \<open>Following a schema path\<close>

text \<open>
  Python truthiness of a path element: \<^verbatim>\<open>not 0\<close> and \<^verbatim>\<open>not ""\<close> are true.
\<close>

fun tok_truthy :: "tok \<Rightarrow> bool" where
  "tok_truthy (TInt i) = (i \<noteq> 0)"
| "tok_truthy (TStr s) = (s \<noteq> [])"

text \<open>\<^verbatim>\<open>s.split(c)\<close> for a one-character separator: \<^verbatim>\<open>"".split("/")\<close> is \<^verbatim>\<open>[""]\<close>.\<close>

fun split_on :: "char \<Rightarrow> string \<Rightarrow> string list" where
  "split_on c [] = [[]]"
| "split_on c (x # xs) =
     (if x = c then [] # split_on c xs
      else (case split_on c xs of
              [] \<Rightarrow> [[x]]
            | w # ws \<Rightarrow> (x # w) # ws))"

text \<open>
  \<^verbatim>\<open>_schema_reference_to_path\<close>: \<^verbatim>\<open>"#"\<close> is the empty path; any other reference loses its
  first two characters and is split at the slashes.  The components stay strings.
  The source expects a string: on a list \<^verbatim>\<open>ref[2:]\<close> is a list, which has no \<^verbatim>\<open>split\<close>;
  every other value cannot be sliced (a dict raises \<^verbatim>\<open>TypeError\<close> up to Python 3.11).
\<close>

fun schema_reference_to_path :: "json \<Rightarrow> error + tok list" where
  "schema_reference_to_path (JStr ref) =
     (if ref = ''#'' then Inr [] else Inr (map TStr (split_on CHR ''/'' (drop 2 ref))))"
| "schema_reference_to_path (JList xs) = Inl AttributeError"
| "schema_reference_to_path _ = Inl TypeError"

text \<open>
  \<^verbatim>\<open>int(s)\<close> for a string: surrounding whitespace is dropped, a sign may lead, and the
  digits may be grouped by single underscores; anything else raises \<^verbatim>\<open>ValueError\<close>.
  (ASCII only: Python also accepts other Unicode digits and spaces.)
\<close>

definition is_space :: "char \<Rightarrow> bool" where
  "is_space c = (c \<in> set [CHR '' '', CHR 0x09, CHR 0x0A, CHR 0x0B, CHR 0x0C, CHR 0x0D,
                           CHR 0x1C, CHR 0x1D, CHR 0x1E, CHR 0x1F])"

definition is_digit :: "char \<Rightarrow> bool" where
  "is_digit c = (c \<in> set ''0123456789'')"

definition strip :: "string \<Rightarrow> string" where
  "strip s = rev (dropWhile is_space (rev (dropWhile is_space s)))"

definition digits_ok :: "string \<Rightarrow> bool" where
  "digits_ok s = list_all (\<lambda>g. g \<noteq> [] \<and> list_all is_digit g) (split_on CHR ''_'' s)"

definition digits_value :: "string \<Rightarrow> nat" where
  "digits_value s = foldl (\<lambda>acc c. 10 * acc + (of_char c - 48)) 0 (filter is_digit s)"

definition py_int :: "string \<Rightarrow> error + int" where
  "py_int s =
     (let t = strip s;
          neg = (t \<noteq> [] \<and> hd t = CHR ''-'');
          body = (if t \<noteq> [] \<and> (hd t = CHR ''-'' \<or> hd t = CHR ''+'') then tl t else t)
      in if digits_ok body
         then Inr (if neg then - int (digits_value body) else int (digits_value body))
         else Inl ValueError)"

text \<open>\<^verbatim>\<open>int(next_path_component)\<close>: an int stays, a string is parsed.\<close>

fun int_of_tok :: "tok \<Rightarrow> error + int" where
  "int_of_tok (TInt i) = Inr i"
| "int_of_tok (TStr s) = py_int s"

text \<open>
  The step \<^verbatim>\<open>schema[next_path_component]\<close>, with the coercion that precedes it when the
  schema is a list.  A dict of a JSON document has string keys only, so an int is never
  one of them.  A string can be indexed by an int (the result is a one-character string);
  \<^verbatim>\<open>None\<close>, bools and ints cannot be subscripted.
\<close>

fun subscript :: "json \<Rightarrow> tok \<Rightarrow> error + json" where
  "subscript (JList xs) t =
     (case int_of_tok t of Inl e \<Rightarrow> Inl e | Inr i \<Rightarrow> list_index xs i)"
| "subscript (JDict kvs) (TStr k) =
     (case map_of kvs k of None \<Rightarrow> Inl KeyError | Some v \<Rightarrow> Inr v)"
| "subscript (JDict kvs) (TInt i) = Inl KeyError"
| "subscript (JStr s) (TInt i) =
     (case list_index s i of Inl e \<Rightarrow> Inl e | Inr c \<Rightarrow> Inr (JStr [c]))"
| "subscript (JStr s) (TStr k) = Inl TypeError"
| "subscript _ _ = Inl TypeError"

text \<open>\<^verbatim>\<open>isinstance(schema, dict) and "$ref" in schema\<close>, with the value of \<^verbatim>\<open>schema["$ref"]\<close>.\<close>

fun ref_of :: "json \<Rightarrow> json option" where
  "ref_of (JDict kvs) = map_of kvs ''$ref''"
| "ref_of _ = None"

text \<open>
  \<^verbatim>\<open>_extract_schema_by_schema_path\<close>.  The first argument is the recursion depth the
  interpreter still allows: every call of the source is one Python frame, and Python
  raises \<^verbatim>\<open>RecursionError\<close> when none is left (a reference cycle ends so).  The
  parameter \<^verbatim>\<open>schema\<close> defaults to \<^verbatim>\<open>None\<close>, which stands for the full schema; \<^verbatim>\<open>None\<close> is
  also JSON's null, so \<open>JNull\<close> plays both roles here as it does in the source.
  \<^verbatim>\<open>next(schema_path_it, None)\<close> followed by \<^verbatim>\<open>if not next_path_component\<close> takes the
  first branch when the path is exhausted and also when the next component is falsy.
\<close>

fun extract_schema_by_schema_path :: "nat \<Rightarrow> tok list \<Rightarrow> json \<Rightarrow> json \<Rightarrow> error + json" where
  "extract_schema_by_schema_path 0 schema_path full_schema schema0 = Inl RecursionError"
| "extract_schema_by_schema_path (Suc depth) schema_path full_schema schema0 =
     (let schema = (if schema0 = JNull then full_schema else schema0) in
      case ref_of schema of
        Some ref \<Rightarrow>
          (case schema_reference_to_path ref of
             Inl e \<Rightarrow> Inl e
           | Inr ref_schema_path \<Rightarrow>
               extract_schema_by_schema_path depth (ref_schema_path @ schema_path) full_schema JNull)
      | None \<Rightarrow>
          (case schema_path of
             [] \<Rightarrow> Inr schema
           | next_path_component # schema_path_it \<Rightarrow>
               if \<not> tok_truthy next_path_component then Inr schema
               else (case subscript schema next_path_component of
                       Inl e \<Rightarrow> Inl e
                     | Inr subschema \<Rightarrow>
                         extract_schema_by_schema_path depth schema_path_it full_schema subschema)))"

text \<open>\<^verbatim>\<open>_extract_schema_by_reference\<close>.\<close>

definition extract_schema_by_reference :: "nat \<Rightarrow> json \<Rightarrow> json \<Rightarrow> error + json" where
  "extract_schema_by_reference depth ref schema =
     (case schema_reference_to_path ref of
        Inl e \<Rightarrow> Inl e
      | Inr ref_schema_path \<Rightarrow> extract_schema_by_schema_path depth ref_schema_path schema JNull)"

section \<open>Naming the alternatives of a oneOf\<close>

text \<open>
  A name is what \<^verbatim>\<open>_get_one_of_alternative_names\<close> puts into its result: the value of a
  \<^verbatim>\<open>title\<close> as it is, or a string the function built.  JSON Schema titles are strings,
  but the source takes any truthy value that can be a dict key: besides a string that is
  an int or \<^verbatim>\<open>True\<close>.
\<close>

datatype name = NStr string | NInt int | NBool bool

text \<open>Python truthiness of a JSON value (\<^verbatim>\<open>if not name\<close>).\<close>

fun truthy :: "json \<Rightarrow> bool" where
  "truthy JNull = False"
| "truthy (JBool b) = b"
| "truthy (JInt i) = (i \<noteq> 0)"
| "truthy (JStr s) = (s \<noteq> [])"
| "truthy (JList xs) = (xs \<noteq> [])"
| "truthy (JDict kvs) = (kvs \<noteq> [])"

text \<open>Keys of a Python dict: \<^verbatim>\<open>True\<close> and \<^verbatim>\<open>1\<close> are the same key.\<close>

fun name_key :: "name \<Rightarrow> name" where
  "name_key (NBool b) = NInt (if b then 1 else 0)"
| "name_key n = n"

text \<open>\<^verbatim>\<open>"{}".format(name)\<close>.\<close>

fun str_name :: "name \<Rightarrow> string" where
  "str_name (NStr s) = s"
| "str_name (NInt i) = str_int i"
| "str_name (NBool b) = (if b then ''True'' else ''False'')"

text \<open>
  \<^verbatim>\<open>sep.join(names)\<close> raises \<^verbatim>\<open>TypeError\<close> unless every item is a string.
\<close>

fun is_NStr :: "name \<Rightarrow> bool" where
  "is_NStr (NStr s) = True"
| "is_NStr _ = False"

definition join_names :: "string \<Rightarrow> name list \<Rightarrow> error + string" where
  "join_names sep names =
     (if list_all is_NStr names then Inr (str_join sep (map str_name names)) else Inl TypeError)"

definition fallback_name :: "nat \<Rightarrow> string" where
  "fallback_name idx = ''Alternative #'' @ str_nat (idx + 1)"

text \<open>
  The name the loop body of \<^verbatim>\<open>_get_one_of_alternative_names\<close> finds for one alternative,
  up to the first use of \<^verbatim>\<open>name_counts[name]\<close>: \<^verbatim>\<open>.get("title")\<close> is \<^verbatim>\<open>None\<close> when the key is
  absent and fails on a dereferenced schema that is no dict; a falsy title gives the
  fallback; a list or a dict is no dict key (\<^verbatim>\<open>TypeError\<close>: unhashable).
\<close>

definition title_name :: "nat \<Rightarrow> json option \<Rightarrow> error + name" where
  "title_name idx title =
     (let name = (case title of None \<Rightarrow> JNull | Some v \<Rightarrow> v) in
      if \<not> truthy name then Inr (NStr (fallback_name idx))
      else (case name of
              JStr s \<Rightarrow> Inr (NStr s)
            | JInt i \<Rightarrow> Inr (NInt i)
            | JBool b \<Rightarrow> Inr (NBool b)
            | _ \<Rightarrow> Inl TypeError))"

definition alternative_name :: "nat \<Rightarrow> json \<Rightarrow> nat \<Rightarrow> json \<Rightarrow> error + name" where
  "alternative_name depth full_schema idx alternative_schema =
     (case alternative_schema of
        JDict kvs \<Rightarrow>
          (case extract_schema_by_schema_path depth [] full_schema alternative_schema of
             Inl e \<Rightarrow> Inl e
           | Inr (JDict kvs') \<Rightarrow> title_name idx (map_of kvs' ''title'')
           | Inr _ \<Rightarrow> Inl AttributeError)
      | _ \<Rightarrow> Inr (NStr (fallback_name idx)))"

text \<open>
  The loop of \<^verbatim>\<open>_get_one_of_alternative_names\<close> with its state: the index of
  \<^verbatim>\<open>enumerate\<close>, the counter \<^verbatim>\<open>name_counts\<close> (a \<^verbatim>\<open>defaultdict(int)\<close>: a total function, zero
  where nothing was counted) and the list \<^verbatim>\<open>names\<close>.
\<close>

fun names_loop ::
  "nat \<Rightarrow> json \<Rightarrow> nat \<Rightarrow> json list \<Rightarrow> (name \<Rightarrow> nat) \<Rightarrow> name list \<Rightarrow> error + name list" where
  "names_loop depth full_schema idx [] name_counts names = Inr names"
| "names_loop depth full_schema idx (alternative_schema # rest) name_counts names =
     (case alternative_name depth full_schema idx alternative_schema of
        Inl e \<Rightarrow> Inl e
      | Inr name \<Rightarrow>
          (let name_count = name_counts (name_key name);
               name_counts' = name_counts(name_key name := name_count + 1);
               names' =
                 (if name_count = 0 then names @ [name]
                  else names @ [NStr (str_name name @ ''('' @ str_nat (name_count + 1) @ '')'')])
           in names_loop depth full_schema (idx + 1) rest name_counts' names'))"

definition get_one_of_alternative_names :: "nat \<Rightarrow> json list \<Rightarrow> json \<Rightarrow> error + name list" where
  "get_one_of_alternative_names depth alternative_schemas full_schema =
     names_loop depth full_schema 0 alternative_schemas (\<lambda>_. 0) []"

section \<open>Composing the message\<close>

text \<open>
  jsonschema's \<^verbatim>\<open>ValidationError\<close>, with the attributes the module reads.  The two paths
  are the absolute ones (jsonschema computes them from the error's parents).  For a
  \<^verbatim>\<open>oneOf\<close> error \<^verbatim>\<open>validator_value\<close> is the list of alternative schemas, and \<^verbatim>\<open>context\<close>
  holds the errors of the alternatives.  (\<open>instance\<close> and \<open>context\<close> are Isabelle
  keywords, so these two attributes are \<open>error_instance\<close> and \<open>error_context\<close>.)
\<close>

datatype verror =
  ValidationError
    (validator: string)
    (absolute_path: "tok list")
    (absolute_schema_path: "tok list")
    (error_instance: json)
    (validator_value: "json list")
    (error_context: "verror list")
    (message: string)

text \<open>
  \<^verbatim>\<open>_is_valid_for_sub_schema\<close> hands its three arguments to jsonschema: a validator
  for \<^verbatim>\<open>sub_schema\<close> that resolves references in \<^verbatim>\<open>full_schema\<close>, asked whether
  \<^verbatim>\<open>sub_instance\<close> is valid.  jsonschema is not part of the module; its answer is the
  parameter \<open>jsonschema_is_valid\<close>.
\<close>

type_synonym validity = "json \<Rightarrow> json \<Rightarrow> json \<Rightarrow> bool"

definition is_valid_for_sub_schema :: "validity \<Rightarrow> json \<Rightarrow> json \<Rightarrow> json \<Rightarrow> bool" where
  "is_valid_for_sub_schema jsonschema_is_valid full_schema sub_schema sub_instance =
     jsonschema_is_valid full_schema sub_schema sub_instance"

text \<open>The loop of \<^verbatim>\<open>_one_of_too_many_alternatives_satisfied_message_lines\<close> over the zip.\<close>

fun satisfied_loop :: "validity \<Rightarrow> json \<Rightarrow> json \<Rightarrow> (name \<times> json) list \<Rightarrow> name list \<Rightarrow> name list" where
  "satisfied_loop V schema inst [] satisfied_alt_names = satisfied_alt_names"
| "satisfied_loop V schema inst ((alt_name, alt_schema) # rest) satisfied_alt_names =
     (if is_valid_for_sub_schema V schema alt_schema inst
      then satisfied_loop V schema inst rest (satisfied_alt_names @ [alt_name])
      else satisfied_loop V schema inst rest satisfied_alt_names)"

definition one_of_too_many_alternatives_satisfied_message_lines ::
  "validity \<Rightarrow> nat \<Rightarrow> json list \<Rightarrow> json \<Rightarrow> json \<Rightarrow> error + string list" where
  "one_of_too_many_alternatives_satisfied_message_lines V depth alternatives inst schema =
     (case get_one_of_alternative_names depth alternatives schema of
        Inl e \<Rightarrow> Inl e
      | Inr alt_names \<Rightarrow>
          (case join_names '', '' alt_names of
             Inl e \<Rightarrow> Inl e
           | Inr joined \<Rightarrow>
               (let error_desc = ''Must be exactly one of: '' @ joined;
                    satisfied_alt_names =
                      satisfied_loop V schema inst (zip alt_names alternatives) []
                in case join_names '', '' satisfied_alt_names of
                     Inl e \<Rightarrow> Inl e
                   | Inr satisfied \<Rightarrow>
                       Inr [error_desc @ ''.  Content satisfied more than one alternative: ''
                              @ satisfied @ ''.''])))"

text \<open>
  \<^verbatim>\<open>errors_by_alt\<close> is a \<^verbatim>\<open>defaultdict(list)\<close>; Python dicts keep their keys in the order
  of first insertion.  \<^verbatim>\<open>errors_by_alt[k].append(v)\<close>:
\<close>

fun dd_append :: "'k \<Rightarrow> 'v \<Rightarrow> ('k \<times> 'v list) list \<Rightarrow> ('k \<times> 'v list) list" where
  "dd_append k v [] = [(k, [v])]"
| "dd_append k v ((k', vs) # rest) =
     (if k' = k then (k', vs @ [v]) # rest else (k', vs) # dd_append k v rest)"

text \<open>
  The first loop of \<^verbatim>\<open>_one_of_no_alternatives_satisfied_message_lines\<close>, over
  \<^verbatim>\<open>error.context\<close>.  Each context error comes paired with the lines
  \<^verbatim>\<open>_validation_error_to_message_lines\<close> gives for it (or the exception it raises): the
  source computes them in the second loop, the model hands them over with the error so
  that the recursion stays on the members of \<^verbatim>\<open>context\<close>.  The order in which exceptions
  surface is the source's: the grouping first, then the groups one after the other.
  The keys are names that \<^verbatim>\<open>join\<close> has accepted: strings.
\<close>

fun group_loop ::
  "nat \<Rightarrow> name list \<Rightarrow> (verror \<times> 'r) list \<Rightarrow> (name \<times> (verror \<times> 'r) list) list
     \<Rightarrow> error + (name \<times> (verror \<times> 'r) list) list" where
  "group_loop one_of_schema_path_len alt_names [] errors_by_alt = Inr errors_by_alt"
| "group_loop one_of_schema_path_len alt_names (ctx_error # rest) errors_by_alt =
     (case list_index (absolute_schema_path (fst ctx_error)) (int one_of_schema_path_len) of
        Inl e \<Rightarrow> Inl e
      | Inr (TStr s) \<Rightarrow> Inl AssertionError
      | Inr (TInt error_alt_idx) \<Rightarrow>
          (case list_index alt_names error_alt_idx of
             Inl e \<Rightarrow> Inl e
           | Inr alt_name \<Rightarrow>
               group_loop one_of_schema_path_len alt_names rest
                 (dd_append alt_name ctx_error errors_by_alt)))"

text \<open>The inner loop of the second loop: the indented lines of one alternative's errors.\<close>

fun alt_errors_lines :: "(verror \<times> (error + string list)) list \<Rightarrow> error + string list" where
  "alt_errors_lines [] = Inr []"
| "alt_errors_lines (alt_error # rest) =
     (case snd alt_error of
        Inl e \<Rightarrow> Inl e
      | Inr sub_message_lines \<Rightarrow>
          (case alt_errors_lines rest of
             Inl e \<Rightarrow> Inl e
           | Inr more \<Rightarrow> Inr (indent_lines sub_message_lines @ more)))"

text \<open>The second loop, over \<^verbatim>\<open>errors_by_alt.items()\<close>.\<close>

fun errors_by_alt_lines ::
  "(name \<times> (verror \<times> (error + string list)) list) list \<Rightarrow> error + string list" where
  "errors_by_alt_lines [] = Inr []"
| "errors_by_alt_lines ((alt_name, alt_errors) # rest) =
     (case alt_errors_lines alt_errors of
        Inl e \<Rightarrow> Inl e
      | Inr lines \<Rightarrow>
          (case errors_by_alt_lines rest of
             Inl e \<Rightarrow> Inl e
           | Inr more \<Rightarrow>
               Inr ((''Errors associated with alternative \"'' @ str_name alt_name @ ''\":'')
                      # lines @ more)))"

definition one_of_no_alternatives_satisfied_message_lines ::
  "nat \<Rightarrow> json list \<Rightarrow> tok list \<Rightarrow> (verror \<times> (error + string list)) list \<Rightarrow> json
     \<Rightarrow> error + string list" where
  "one_of_no_alternatives_satisfied_message_lines depth alternatives
       schema_path explained_context schema =
     (case get_one_of_alternative_names depth alternatives schema of
        Inl e \<Rightarrow> Inl e
      | Inr alt_names \<Rightarrow>
          (case join_names '', '' alt_names of
             Inl e \<Rightarrow> Inl e
           | Inr joined \<Rightarrow>
               (let basic_desc =
                      ''Must be exactly one of: '' @ joined @ ''; all alternatives failed validation.''
                in if explained_context = [] then Inl AssertionError
                   else (case group_loop (length schema_path) alt_names
                                explained_context [] of
                           Inl e \<Rightarrow> Inl e
                         | Inr errors_by_alt \<Rightarrow>
                             (case errors_by_alt_lines errors_by_alt of
                                Inl e \<Rightarrow> Inl e
                              | Inr lines \<Rightarrow> Inr (basic_desc # lines))))))"

text \<open>\<^verbatim>\<open>_validation_error_to_message_lines\<close>.\<close>

fun validation_error_to_message_lines ::
  "validity \<Rightarrow> nat \<Rightarrow> verror \<Rightarrow> json \<Rightarrow> error + string list" where
  "validation_error_to_message_lines V depth
       (ValidationError validator' path schema_path inst alternatives ctx msg) schema =
     (case instance_path_to_description path of
        Inl e \<Rightarrow> Inl e
      | Inr location_desc \<Rightarrow>
          (case (if validator' = ''oneOf'' then
                   (if ctx \<noteq> [] then
                      one_of_no_alternatives_satisfied_message_lines depth alternatives schema_path
                        (map (\<lambda>ctx_error.
                                (ctx_error, validation_error_to_message_lines V depth ctx_error schema))
                           ctx)
                        schema
                    else one_of_too_many_alternatives_satisfied_message_lines V depth alternatives inst schema)
                 else Inr [msg]) of
             Inl e \<Rightarrow> Inl e
           | Inr what_lines \<Rightarrow>
               if length what_lines = 1
               then Inr [''In '' @ location_desc @ '': '' @ what_lines ! 0]
               else Inr ((''In '' @ location_desc @ '':'') # indent_lines what_lines)))"

section \<open>The public functions\<close>

text \<open>\<^verbatim>\<open>validation_error_to_message\<close>: the lines joined by a newline.\<close>

definition validation_error_to_message :: "validity \<Rightarrow> nat \<Rightarrow> verror \<Rightarrow> json \<Rightarrow> error + string" where
  "validation_error_to_message V depth error schema =
     (case validation_error_to_message_lines V depth error schema of
        Inl e \<Rightarrow> Inl e
      | Inr message_lines \<Rightarrow> Inr (str_join [CHR 0x0A] message_lines))"

text \<open>
  \<^verbatim>\<open>validation_errors_to_message\<close>: the list comprehension stops at the first exception;
  the messages are joined by two newlines.
\<close>

fun messages_of :: "validity \<Rightarrow> nat \<Rightarrow> verror list \<Rightarrow> json \<Rightarrow> error + string list" where
  "messages_of V depth [] schema = Inr []"
| "messages_of V depth (error # errors) schema =
     (case validation_error_to_message V depth error schema of
        Inl e \<Rightarrow> Inl e
      | Inr m \<Rightarrow>
          (case messages_of V depth errors schema of
             Inl e \<Rightarrow> Inl e
           | Inr ms \<Rightarrow> Inr (m # ms)))"

definition validation_errors_to_message :: "validity \<Rightarrow> nat \<Rightarrow> verror list \<Rightarrow> json \<Rightarrow> error + string" where
  "validation_errors_to_message V depth errors schema =
     (case messages_of V depth errors schema of
        Inl e \<Rightarrow> Inl e
      | Inr messages \<Rightarrow> Inr (str_join [CHR 0x0A, CHR 0x0A] messages))"

section \<open>The composer on an explicit store\<close>

text \<open>
  \<^verbatim>\<open>_indent_lines\<close> overwrites the list it is given, and the lists of message lines are
  handed from one function to the next: \<^verbatim>\<open>_validation_error_to_message_lines\<close> indents in
  place the list that \<^verbatim>\<open>_one_of_no_alternatives_satisfied_message_lines\<close> returned, which in
  turn indents in place the lists returned for the context errors.  To follow which list
  object is written, this section runs the same functions on a store of objects.  An
  address is an index into the store; a new object gets the next free index.  The store
  holds the lists of lines and, for the public functions, the objects the caller passes
  in: the schema document and the validation errors.  The source applies no assignment,
  \<^verbatim>\<open>append\<close>, \<^verbatim>\<open>extend\<close> or other mutating method to a schema or an error, so the functions
  below only read those.  The other containers the source writes stay values as in the
  sections above: \<^verbatim>\<open>message_parts\<close>, \<^verbatim>\<open>name_counts\<close>, \<^verbatim>\<open>names\<close>, \<^verbatim>\<open>satisfied_alt_names\<close> and
  \<^verbatim>\<open>errors_by_alt\<close> are made and filled inside one call, and \<^verbatim>\<open>ref_schema_path\<close>, which
  \<^verbatim>\<open>_extract_schema_by_schema_path\<close> extends, is the list that \<^verbatim>\<open>_schema_reference_to_path\<close>
  has just made (an empty display or the result of \<^verbatim>\<open>split\<close>).
  An exception leaves the store as it was when it was raised.
\<close>

datatype cell = Lines "string list" | Document json | Failure verror

type_synonym store = "cell list"

definition lines_at :: "store \<Rightarrow> nat \<Rightarrow> string list" where
  "lines_at st a = (case st ! a of Lines ls \<Rightarrow> ls | _ \<Rightarrow> [])"

text \<open>A list display \<^verbatim>\<open>[...]\<close> makes a new list object.\<close>

definition new_list :: "string list \<Rightarrow> store \<Rightarrow> nat \<times> store" where
  "new_list ls st = (length st, st @ [Lines ls])"

text \<open>\<^verbatim>\<open>lines[i] = " " * _INDENT_SIZE + line\<close>: one element of the list at \<open>a\<close> is overwritten.\<close>

definition indent_line_at :: "nat \<Rightarrow> nat \<Rightarrow> store \<Rightarrow> store" where
  "indent_line_at a i st =
     st[a := Lines ((lines_at st a)[i := replicate INDENT_SIZE CHR '' '' @ lines_at st a ! i])]"

text \<open>\<^verbatim>\<open>_indent_lines\<close>: the loop over the indices; the same list object is returned.\<close>

definition indent_lines_st :: "nat \<Rightarrow> store \<Rightarrow> nat \<times> store" where
  "indent_lines_st a st = (a, fold (indent_line_at a) [0..<length (lines_at st a)] st)"

text \<open>\<^verbatim>\<open>message_lines.append(x)\<close> and \<^verbatim>\<open>message_lines.extend(other)\<close>.\<close>

definition list_append_st :: "nat \<Rightarrow> string \<Rightarrow> store \<Rightarrow> store" where
  "list_append_st a x st = st[a := Lines (lines_at st a @ [x])]"

definition list_extend_st :: "nat \<Rightarrow> nat \<Rightarrow> store \<Rightarrow> store" where
  "list_extend_st a b st = st[a := Lines (lines_at st a @ lines_at st b)]"

text \<open>A call that may raise: the result or the exception, and the store it leaves.\<close>

type_synonym 'a run = "store \<Rightarrow> (error + 'a) \<times> store"

text \<open>
  \<^verbatim>\<open>_one_of_too_many_alternatives_satisfied_message_lines\<close> returns the list display
  \<^verbatim>\<open>[error_desc]\<close>.
\<close>

definition one_of_too_many_alternatives_satisfied_st ::
  "validity \<Rightarrow> nat \<Rightarrow> json list \<Rightarrow> json \<Rightarrow> json \<Rightarrow> nat run" where
  "one_of_too_many_alternatives_satisfied_st V depth alternatives inst schema st =
     (case one_of_too_many_alternatives_satisfied_message_lines V depth alternatives inst schema of
        Inl e \<Rightarrow> (Inl e, st)
      | Inr lines \<Rightarrow> (case new_list lines st of (a, st') \<Rightarrow> (Inr a, st')))"

text \<open>
  The loops of \<^verbatim>\<open>_one_of_no_alternatives_satisfied_message_lines\<close> that fill
  \<^verbatim>\<open>message_lines\<close> (the list at \<open>ml\<close>).  A context error comes with the call of
  \<^verbatim>\<open>_validation_error_to_message_lines\<close> for it, which is run when the loop reaches it.
\<close>

fun alt_errors_st :: "nat \<Rightarrow> (verror \<times> nat run) list \<Rightarrow> unit run" where
  "alt_errors_st ml [] st = (Inr (), st)"
| "alt_errors_st ml (alt_error # rest) st =
     (case snd alt_error st of
        (Inl e, st1) \<Rightarrow> (Inl e, st1)
      | (Inr sub_message_lines, st1) \<Rightarrow>
          (case indent_lines_st sub_message_lines st1 of
             (indented, st2) \<Rightarrow> alt_errors_st ml rest (list_extend_st ml indented st2)))"

fun errors_by_alt_st :: "nat \<Rightarrow> (name \<times> (verror \<times> nat run) list) list \<Rightarrow> unit run" where
  "errors_by_alt_st ml [] st = (Inr (), st)"
| "errors_by_alt_st ml ((alt_name, alt_errors) # rest) st =
     (case alt_errors_st ml alt_errors
             (list_append_st ml
                (''Errors associated with alternative \"'' @ str_name alt_name @ ''\":'') st) of
        (Inl e, st1) \<Rightarrow> (Inl e, st1)
      | (Inr u, st1) \<Rightarrow> errors_by_alt_st ml rest st1)"

definition one_of_no_alternatives_satisfied_st ::
  "nat \<Rightarrow> json list \<Rightarrow> tok list \<Rightarrow> (verror \<times> nat run) list \<Rightarrow> json \<Rightarrow> nat run" where
  "one_of_no_alternatives_satisfied_st depth alternatives schema_path explained_context schema st =
     (case new_list [] st of
        (ml, st0) \<Rightarrow>
          (case get_one_of_alternative_names depth alternatives schema of
             Inl e \<Rightarrow> (Inl e, st0)
           | Inr alt_names \<Rightarrow>
               (case join_names '', '' alt_names of
                  Inl e \<Rightarrow> (Inl e, st0)
                | Inr joined \<Rightarrow>
                    (let st1 = list_append_st ml
                           (''Must be exactly one of: '' @ joined
                              @ ''; all alternatives failed validation.'') st0
                     in if explained_context = [] then (Inl AssertionError, st1)
                        else (case group_loop (length schema_path) alt_names explained_context [] of
                                Inl e \<Rightarrow> (Inl e, st1)
                              | Inr errors_by_alt \<Rightarrow>
                                  (case errors_by_alt_st ml errors_by_alt st1 of
                                     (Inl e, st2) \<Rightarrow> (Inl e, st2)
                                   | (Inr u, st2) \<Rightarrow> (Inr ml, st2)))))))"

text \<open>\<^verbatim>\<open>_validation_error_to_message_lines\<close>; the result is the address of \<^verbatim>\<open>message_lines\<close>.\<close>

fun validation_error_to_message_lines_st ::
  "validity \<Rightarrow> nat \<Rightarrow> verror \<Rightarrow> json \<Rightarrow> nat run" where
  "validation_error_to_message_lines_st V depth
       (ValidationError validator' path schema_path inst alternatives ctx msg) schema st =
     (case instance_path_to_description path of
        Inl e \<Rightarrow> (Inl e, st)
      | Inr location_desc \<Rightarrow>
          (case (if validator' = ''oneOf'' then
                   (if ctx \<noteq> [] then
                      one_of_no_alternatives_satisfied_st depth alternatives schema_path
                        (map (\<lambda>ctx_error.
                                (ctx_error,
                                 \<lambda>st'. validation_error_to_message_lines_st V depth ctx_error schema st'))
                           ctx)
                        schema st
                    else one_of_too_many_alternatives_satisfied_st V depth alternatives inst schema st)
                 else (case new_list [msg] st of (a, st') \<Rightarrow> (Inr a, st'))) of
             (Inl e, st1) \<Rightarrow> (Inl e, st1)
           | (Inr what_lines, st1) \<Rightarrow>
               if length (lines_at st1 what_lines) = 1
               then (case new_list [''In '' @ location_desc @ '': '' @ lines_at st1 what_lines ! 0] st1 of
                       (message_lines, st2) \<Rightarrow> (Inr message_lines, st2))
               else (case new_list [''In '' @ location_desc @ '':''] st1 of
                       (message_lines, st2) \<Rightarrow>
                         (case indent_lines_st what_lines st2 of
                            (indented, st3) \<Rightarrow>
                              (Inr message_lines, list_extend_st message_lines indented st3)))))"

text \<open>
  The public functions.  The caller passes the error and the schema as objects of the
  store; a string is a value.
\<close>

definition validation_error_to_message_st :: "validity \<Rightarrow> nat \<Rightarrow> nat \<Rightarrow> nat \<Rightarrow> string run" where
  "validation_error_to_message_st V depth error_at schema_at st =
     (case (st ! error_at, st ! schema_at) of
        (Failure error, Document schema) \<Rightarrow>
          (case validation_error_to_message_lines_st V depth error schema st of
             (Inl e, st1) \<Rightarrow> (Inl e, st1)
           | (Inr message_lines, st1) \<Rightarrow> (Inr (str_join [CHR 0x0A] (lines_at st1 message_lines)), st1))
      | _ \<Rightarrow> (Inl TypeError, st))"

fun messages_of_st :: "validity \<Rightarrow> nat \<Rightarrow> nat list \<Rightarrow> nat \<Rightarrow> string list run" where
  "messages_of_st V depth [] schema_at st = (Inr [], st)"
| "messages_of_st V depth (error_at # errors) schema_at st =
     (case validation_error_to_message_st V depth error_at schema_at st of
        (Inl e, st1) \<Rightarrow> (Inl e, st1)
      | (Inr m, st1) \<Rightarrow>
          (case messages_of_st V depth errors schema_at st1 of
             (Inl e, st2) \<Rightarrow> (Inl e, st2)
           | (Inr ms, st2) \<Rightarrow> (Inr (m # ms), st2)))"

definition validation_errors_to_message_st :: "validity \<Rightarrow> nat \<Rightarrow> nat list \<Rightarrow> nat \<Rightarrow> string run" where
  "validation_errors_to_message_st V depth errors_at schema_at st =
     (case messages_of_st V depth errors_at schema_at st of
        (Inl e, st1) \<Rightarrow> (Inl e, st1)
      | (Inr messages, st1) \<Rightarrow> (Inr (str_join [CHR 0x0A, CHR 0x0A] messages), st1))"

section \<open>The specification's formulations\<close>

text \<open>
  The definitions of this section are written from the specification's sentences, not
  from the source; the theorems compare them with the functions above.
\<close>

text \<open>
  The specification's slash-joined path: an empty path renders as \<^verbatim>\<open>/\<close>, a non-empty one
  as \<^verbatim>\<open>/tok1/tok2/...\<close>.
\<close>

definition spec_slash_joined :: "tok list \<Rightarrow> string" where
  "spec_slash_joined p = (if p = [] then ''/'' else concat (map (\<lambda>t. ''/'' @ str_tok t) p))"

text \<open>The case analysis of the specification's Domain Locator.\<close>

fun spec_locate :: "tok list \<Rightarrow> string" where
  "spec_locate [] = ''root level of experiment description''"
| "spec_locate (t0 # rest) =
     (if t0 = TStr ''parameters'' then
        (case rest of
           [] \<Rightarrow> ''global parameters section''
         | TStr name # _ \<Rightarrow> ''parameter '' @ ''\"'' @ name @ ''\"''
         | TInt n # _ \<Rightarrow> ''parameter '' @ ''#'' @ str_int (n + 1))
      else if t0 = TStr ''tasks'' then
        (case rest of
           [] \<Rightarrow> ''tasks section''
         | t1 # rest' \<Rightarrow>
             ''task plugin \"'' @ str_tok t1 @ ''\"'' @
             (case rest' of
                [] \<Rightarrow> []
              | t2 # _ \<Rightarrow>
                  if t2 = TStr ''outputs'' then '' outputs''
                  else if t2 = TStr ''plugin'' then '' plugin ID''
                  else []))
      else if t0 = TStr ''graph'' then
        (case rest of
           [] \<Rightarrow> ''graph section''
         | t1 # rest' \<Rightarrow>
             ''step \"'' @ str_tok t1 @ ''\"'' @
             (case rest' of
                [] \<Rightarrow> []
              | t2 # _ \<Rightarrow> if t2 = TStr ''dependencies'' then '' dependencies'' else []))
      else ''experiment description location '' @ spec_slash_joined (t0 # rest))"

text \<open>
  The specification's uniquification: the first occurrence of a candidate name is used
  unmodified, the \<open>k\<close>-th repeat (\<open>k \<ge> 1\<close>) is rendered as \<^verbatim>\<open><name>(<k+1>)\<close>.  \<open>earlier\<close> are
  the candidates before this one, so \<open>k\<close> is the number of times the name occurs there.
\<close>

definition spec_unique_name :: "string list \<Rightarrow> string \<Rightarrow> string" where
  "spec_unique_name earlier c =
     (let k = count_list earlier c in
      if k = 0 then c else c @ ''('' @ str_nat (k + 1) @ '')'')"

definition spec_unique_names :: "string list \<Rightarrow> string list" where
  "spec_unique_names cs = map (\<lambda>i. spec_unique_name (take i cs) (cs ! i)) [0..<length cs]"

text \<open>An alternative schema that consists of a title.\<close>

definition titled :: "string \<Rightarrow> json" where
  "titled t = JDict [(''title'', JStr t)]"

text \<open>
  The body of the too-many-satisfied case: the first line and, appended to it, the
  sentence that lists the satisfied names; the satisfied names are those whose
  alternative the probe reports valid, in order.
\<close>

definition spec_satisfied_names :: "validity \<Rightarrow> json \<Rightarrow> json \<Rightarrow> string list \<Rightarrow> json list \<Rightarrow> string list" where
  "spec_satisfied_names V schema inst names alts =
     map fst (filter (\<lambda>(n, a). is_valid_for_sub_schema V schema a inst) (zip names alts))"

definition spec_too_many_line :: "string list \<Rightarrow> string list \<Rightarrow> string" where
  "spec_too_many_line names satisfied =
     (''Must be exactly one of: '' @ str_join '', '' names)
     @ (''.  Content satisfied more than one alternative: '' @ str_join '', '' satisfied @ ''.'')"

text \<open>
  The uniquification once more, as a recursion that carries the candidates seen so far;
  \<open>spec_unique_names\<close> is \<open>unique_from []\<close>.
\<close>

fun unique_from :: "string list \<Rightarrow> string list \<Rightarrow> string list" where
  "unique_from earlier [] = []"
| "unique_from earlier (c # cs) = spec_unique_name earlier c # unique_from (earlier @ [c]) cs"

text \<open>
  The none-satisfied case.  A nested failure belongs to the alternative whose index is
  the token of its schema path at position \<open>n\<close>, the length of the outer failure's schema
  path; \<open>spec_owner\<close> is the name of that alternative.
\<close>

fun tok_index :: "tok \<Rightarrow> nat" where
  "tok_index (TInt i) = nat i"
| "tok_index (TStr s) = 0"

definition spec_owner :: "string list \<Rightarrow> nat \<Rightarrow> verror \<Rightarrow> string" where
  "spec_owner names n c = names ! tok_index (absolute_schema_path c ! n)"

text \<open>The distinct members of a list in the order of their first occurrence.\<close>

fun first_seen :: "'a list \<Rightarrow> 'a list" where
  "first_seen [] = []"
| "first_seen (x # xs) = x # filter (\<lambda>y. y \<noteq> x) (first_seen xs)"

text \<open>
  The body: the first line; then, for each alternative name that owns a nested failure,
  in first-encountered order, the header line and the explanation of each nested failure
  it owns, in nested-failure order, every line with four more spaces in front.
  \<open>explained\<close> pairs every nested failure with the lines of its explanation.
\<close>

definition spec_header :: "string \<Rightarrow> string" where
  "spec_header alt_name = ''Errors associated with alternative \"'' @ alt_name @ ''\":''"

definition spec_none_satisfied_body ::
  "string list \<Rightarrow> nat \<Rightarrow> (verror \<times> string list) list \<Rightarrow> string list" where
  "spec_none_satisfied_body names n explained =
     (''Must be exactly one of: '' @ str_join '', '' names @ ''; all alternatives failed validation.'')
     # concat (map (\<lambda>alt_name.
                     spec_header alt_name
                     # concat (map (\<lambda>(c, lines). map (\<lambda>line. ''    '' @ line) lines)
                                 (filter (\<lambda>(c, lines). spec_owner names n c = alt_name) explained)))
                (first_seen (map (\<lambda>(c, lines). spec_owner names n c) explained)))"

section \<open>Conditions on the store\<close>

text \<open>
  Frame conditions.  \<open>frame_of st st'\<close>: every object of \<open>st\<close> is in \<open>st'\<close>, at its
  address and unchanged; \<open>st'\<close> may hold new objects after them.  \<open>returns_lines out st r\<close>:
  a call that started in \<open>st\<close> ended with \<open>out\<close>, kept the frame, and either raised the
  exception \<open>r\<close> or returned the address of a list that did not exist in \<open>st\<close> and holds
  the lines \<open>r\<close>.  \<open>returns_value\<close> is the same for a call that returns a value.
\<close>

definition frame_of :: "store \<Rightarrow> store \<Rightarrow> bool" where
  "frame_of st st' = (length st \<le> length st' \<and> take (length st) st' = st)"

definition returns_lines :: "(error + nat) \<times> store \<Rightarrow> store \<Rightarrow> error + string list \<Rightarrow> bool" where
  "returns_lines out st r =
     (case out of
        (Inl e, st') \<Rightarrow> frame_of st st' \<and> r = Inl e
      | (Inr a, st') \<Rightarrow>
          frame_of st st' \<and> length st \<le> a \<and> a < length st' \<and>
          (case r of Inl e \<Rightarrow> False | Inr ls \<Rightarrow> st' ! a = Lines ls))"

definition returns_value :: "(error + 'a) \<times> store \<Rightarrow> store \<Rightarrow> error + 'a \<Rightarrow> bool" where
  "returns_value out st r = (frame_of st (snd out) \<and> fst out = r)"

text \<open>
  The invariants of the loops on the store.  \<open>context_rel\<close>: a context error with its call
  on the store, next to the same error with the lines of the value model, such that the
  call always keeps the frame and returns a new list with these lines.  \<open>fills ml out st r\<close>:
  a loop that started in \<open>st\<close> and ended with \<open>out\<close> wrote no object of \<open>st\<close> but the list at
  \<open>ml\<close>, to which it appended the lines \<open>r\<close> (or it raised the exception \<open>r\<close>).
\<close>

definition context_rel :: "verror \<times> nat run \<Rightarrow> verror \<times> (error + string list) \<Rightarrow> bool" where
  "context_rel x y = (fst x = fst y \<and> (\<forall>st. returns_lines (snd x st) st (snd y)))"

definition groups_rel ::
  "name \<times> (verror \<times> nat run) list \<Rightarrow> name \<times> (verror \<times> (error + string list)) list \<Rightarrow> bool" where
  "groups_rel g g' = (fst g = fst g' \<and> list_all2 context_rel (snd g) (snd g'))"

definition fills :: "nat \<Rightarrow> (error + unit) \<times> store \<Rightarrow> store \<Rightarrow> error + string list \<Rightarrow> bool" where
  "fills ml out st r =
     (length st \<le> length (snd out) \<and>
      (\<forall>a<length st. a \<noteq> ml \<longrightarrow> snd out ! a = st ! a) \<and>
      (case fst out of
         Inl e \<Rightarrow> r = Inl e
       | Inr u \<Rightarrow> (case r of Inl e \<Rightarrow> False | Inr new \<Rightarrow> snd out ! ml = Lines (lines_at st ml @ new))))"

section \<open>Properties of the built-ins\<close>

lemma list_index_0: "list_index (x # xs) 0 = Inr x"
  by (simp add: list_index_def)

lemma list_index_1: "list_index (x # y # xs) 1 = Inr y"
  by (simp add: list_index_def)

lemma list_index_2: "list_index (x # y # z # xs) 2 = Inr z"
  by (simp add: list_index_def)

lemma str_nat_digit: "n < 10 \<Longrightarrow> str_nat n = [''0123456789'' ! n]"
  by (simp add: str_nat.simps digit_char_def)

lemma str_join_slash:
  "xs \<noteq> [] \<Longrightarrow> ''/'' @ str_join ''/'' xs = concat (map (\<lambda>x. ''/'' @ x) xs)"
  by (induction "''/''" xs rule: str_join.induct) auto

section \<open>The description of an instance path\<close>

lemma json_path_to_string_spec: "json_path_to_string p = spec_slash_joined p"
proof (cases p)
  case Nil
  then show ?thesis by (simp add: json_path_to_string_def spec_slash_joined_def)
next
  case (Cons t ts)
  then have "map str_tok p \<noteq> []" by simp
  from str_join_slash [OF this] show ?thesis
    using Cons by (simp add: json_path_to_string_def spec_slash_joined_def comp_def)
qed

lemmas locate_defs =
  instance_path_to_description_def message_parts_def parameters_parts_def
  tasks_parts_def graph_parts_def json_path_to_string_spec Let_def

lemma instance_path_to_description_locate:
  "instance_path_to_description p = Inr (spec_locate p)"
proof (cases p)
  case Nil
  then show ?thesis
    by (simp add: instance_path_to_description_def message_parts_def)
next
  case p1: (Cons t0 r0)
  show ?thesis
  proof (cases r0)
    case Nil
    with p1 show ?thesis
      by (simp add: locate_defs list_index_0)
  next
    case p2: (Cons t1 r1)
    show ?thesis
    proof (cases r1)
      case Nil
      with p1 p2 show ?thesis
        by (cases t1) (simp_all add: locate_defs list_index_0 list_index_1)
    next
      case (Cons t2 r2)
      with p1 p2 show ?thesis
        by (cases t1) (simp_all add: locate_defs list_index_0 list_index_1 list_index_2)
    qed
  qed
qed

text \<open>
  Claim C7.  For every path, \<^verbatim>\<open>_instance_path_to_description\<close> returns (none of its
  index reads raises), and what it returns is the phrase of the specification's case
  analysis: the root phrase for the empty path; for \<^verbatim>\<open>parameters\<close>, \<^verbatim>\<open>tasks\<close> and \<^verbatim>\<open>graph\<close>
  the section phrase when the path has one element and otherwise the phrase built from
  the second (and third) element; for every other first element the slash-joined path
  after \<^verbatim>\<open>experiment description location\<close>.  The cases of the parameters section are
  spelled out: a string names the parameter in quotes, an integer \<open>n\<close> gives \<^verbatim>\<open>#<n+1>\<close>.
\<close>

theorem instance_path_to_description_spec:
  "instance_path_to_description p = Inr (spec_locate p)
   \<and> instance_path_to_description [] = Inr ''root level of experiment description''
   \<and> instance_path_to_description [TStr ''parameters''] = Inr ''global parameters section''
   \<and> instance_path_to_description (TStr ''parameters'' # TStr name # rest)
       = Inr (''parameter \"'' @ name @ ''\"'')
   \<and> instance_path_to_description (TStr ''parameters'' # TInt n # rest)
       = Inr (''parameter #'' @ str_int (n + 1))
   \<and> instance_path_to_description [TStr ''unknown'', TStr ''x'']
       = Inr ''experiment description location /unknown/x''"
  by (simp add: instance_path_to_description_locate spec_slash_joined_def)

section \<open>The public functions\<close>

lemma messages_of_all:
  "list_all2 (\<lambda>f m. validation_error_to_message V d f s = Inr m) fs ms
   \<Longrightarrow> messages_of V d fs s = Inr ms"
  by (induction fs ms rule: list_all2_induct) simp_all

text \<open>
  Claim C8.  \<^verbatim>\<open>validation_error_to_message\<close> is the composer's lines joined by one
  newline (an exception of the composer is passed on).  When every error of a list has
  a message, \<^verbatim>\<open>validation_errors_to_message\<close> is these messages, in the order of the list,
  joined by two newlines; for the empty list it is the empty string, for a list of one
  error it is that error's \<^verbatim>\<open>validation_error_to_message\<close>, and for two errors the first
  message, two newlines and the second message.
\<close>

theorem entry_points_join:
  "validation_error_to_message V d f s
     = map_sum id (str_join [CHR 0x0A]) (validation_error_to_message_lines V d f s)
   \<and> (list_all2 (\<lambda>f m. validation_error_to_message V d f s = Inr m) fs ms
        \<longrightarrow> validation_errors_to_message V d fs s = Inr (str_join [CHR 0x0A, CHR 0x0A] ms))
   \<and> validation_errors_to_message V d [] s = Inr []
   \<and> validation_errors_to_message V d [f] s = validation_error_to_message V d f s
   \<and> (validation_error_to_message V d f1 s = Inr m1 \<and> validation_error_to_message V d f2 s = Inr m2
        \<longrightarrow> validation_errors_to_message V d [f1, f2] s = Inr (m1 @ [CHR 0x0A, CHR 0x0A] @ m2))"
proof (intro conjI impI)
  show "validation_error_to_message V d f s
     = map_sum id (str_join [CHR 0x0A]) (validation_error_to_message_lines V d f s)"
    by (simp add: validation_error_to_message_def split: sum.splits)
next
  assume "list_all2 (\<lambda>f m. validation_error_to_message V d f s = Inr m) fs ms"
  then show "validation_errors_to_message V d fs s = Inr (str_join [CHR 0x0A, CHR 0x0A] ms)"
    by (simp add: validation_errors_to_message_def messages_of_all)
next
  show "validation_errors_to_message V d [] s = Inr []"
    by (simp add: validation_errors_to_message_def)
next
  show "validation_errors_to_message V d [f] s = validation_error_to_message V d f s"
    by (simp add: validation_errors_to_message_def split: sum.splits)
next
  assume "validation_error_to_message V d f1 s = Inr m1 \<and> validation_error_to_message V d f2 s = Inr m2"
  then show "validation_errors_to_message V d [f1, f2] s = Inr (m1 @ [CHR 0x0A, CHR 0x0A] @ m2)"
    by (simp add: validation_errors_to_message_def)
qed

theorem entry_points_join_witness:
  "validation_errors_to_message (\<lambda>full sub inst. False) 0
     [ValidationError ''type'' [TStr ''parameters'', TInt 2] [TStr ''type''] JNull [] [] ''1 is not of type string'',
      ValidationError ''required'' [] [TStr ''required''] JNull [] [] ''graph is a required property'']
     JNull
   = Inr (''In parameter #3: 1 is not of type string'' @ [CHR 0x0A, CHR 0x0A]
          @ ''In root level of experiment description: graph is a required property'')"
proof -
  let ?V = "\<lambda>full sub inst. False"
  let ?f1 = "ValidationError ''type'' [TStr ''parameters'', TInt 2] [TStr ''type''] JNull [] [] ''1 is not of type string''"
  let ?f2 = "ValidationError ''required'' [] [TStr ''required''] JNull [] [] ''graph is a required property''"
  have m: "list_all2 (\<lambda>f m. validation_error_to_message ?V 0 f JNull = Inr m) [?f1, ?f2]
      [''In parameter #3: 1 is not of type string'',
       ''In root level of experiment description: graph is a required property'']"
    by (simp add: validation_error_to_message_def instance_path_to_description_locate str_int_def str_nat_digit)
  from entry_points_join [of ?V 0 ?f1 JNull "[?f1, ?f2]"
      "[''In parameter #3: 1 is not of type string'',
        ''In root level of experiment description: graph is a required property'']"] m
  show ?thesis by simp
qed

section \<open>The names of the alternatives\<close>

lemma join_names_NStr: "join_names sep (map NStr names) = Inr (str_join sep names)"
  by (simp add: join_names_def list_all_iff comp_def)

lemma unique_from_map:
  "unique_from earlier cs
     = map (\<lambda>i. spec_unique_name (earlier @ take i cs) (cs ! i)) [0..<length cs]"
proof (induction cs arbitrary: earlier)
  case Nil
  then show ?case by simp
next
  case (Cons c cs)
  have "[0..<length (c # cs)] = 0 # map Suc [0..<length cs]"
    by (simp add: upt_conv_Cons map_Suc_upt del: upt_Suc)
  then show ?case
    by (simp add: Cons.IH comp_def del: upt_Suc)
qed

lemma spec_unique_names_unique_from: "spec_unique_names cs = unique_from [] cs"
  by (simp add: unique_from_map spec_unique_names_def)

lemma alternative_name_titled:
  "t \<noteq> [] \<Longrightarrow> alternative_name (Suc depth) full idx (titled t) = Inr (NStr t)"
  by (simp add: alternative_name_def title_name_def titled_def)

text \<open>
  The loop invariant: \<open>name_counts\<close> counts the candidates seen so far (\<open>earlier\<close>).
\<close>

lemma names_loop_unique_from:
  assumes "list_all2 (\<lambda>(i, alt) c. alternative_name depth full i alt = Inr (NStr c))
             (zip [idx..<idx + length alts] alts) cs"
    and "\<And>s. name_counts (NStr s) = count_list earlier s"
  shows "names_loop depth full idx alts name_counts names
           = Inr (names @ map NStr (unique_from earlier cs))"
  using assms
proof (induction alts arbitrary: idx cs name_counts names earlier)
  case Nil
  then show ?case by simp
next
  case (Cons alt alts)
  have upt: "[idx..<idx + length (alt # alts)] = idx # [Suc idx..<Suc idx + length alts]"
    by (simp add: upt_conv_Cons del: upt_Suc)
  from Cons.prems(1) obtain c cs' where cs: "cs = c # cs'"
    and c: "alternative_name depth full idx alt = Inr (NStr c)"
    and rest: "list_all2 (\<lambda>(i, alt) c. alternative_name depth full i alt = Inr (NStr c))
             (zip [Suc idx..<Suc idx + length alts] alts) cs'"
    unfolding upt by (auto simp: list_all2_Cons1)
  let ?counts = "name_counts(NStr c := name_counts (NStr c) + 1)"
  have counts: "\<And>s. ?counts (NStr s) = count_list (earlier @ [c]) s"
    by (simp add: Cons.prems(2))
  have step: "names_loop depth full (Suc idx) alts ?counts (names @ [NStr (spec_unique_name earlier c)])
      = Inr ((names @ [NStr (spec_unique_name earlier c)]) @ map NStr (unique_from (earlier @ [c]) cs'))"
    by (rule Cons.IH [OF rest counts])
  have names': "(if name_counts (NStr c) = 0 then names @ [NStr c]
           else names @ [NStr (str_name (NStr c) @ ''('' @ str_nat (name_counts (NStr c) + 1) @ '')'')])
          = names @ [NStr (spec_unique_name earlier c)]"
    by (simp add: Cons.prems(2) spec_unique_name_def)
  show ?case
    unfolding cs names_loop.simps c sum.case Let_def name_key.simps names' unique_from.simps
    using step by simp
qed

lemma alternative_names_unique_from:
  assumes "list_all2 (\<lambda>(i, alt) c. alternative_name depth full i alt = Inr (NStr c))
             (zip [0..<length alts] alts) cs"
  shows "get_one_of_alternative_names depth alts full = Inr (map NStr (spec_unique_names cs))"
proof -
  from assms
  have "list_all2 (\<lambda>(i, alt) c. alternative_name depth full i alt = Inr (NStr c))
          (zip [0..<0 + length alts] alts) cs"
    by simp
  from names_loop_unique_from [OF this, of "\<lambda>_. 0" "[]" "[]"]
  show ?thesis
    by (simp add: get_one_of_alternative_names_def spec_unique_names_unique_from)
qed

text \<open>
  Claim C6 on the code.  In the document \<^verbatim>\<open>{"definitions": {"t": true}}\<close> the alternative
  \<^verbatim>\<open>{"$ref": "#/definitions/t"}\<close> is a mapping, and it dereferences to the boolean schema
  \<^verbatim>\<open>true\<close>, which has no title: its candidate name is \<^verbatim>\<open>Alternative #1\<close>.
  \<^verbatim>\<open>_get_one_of_alternative_names\<close> returns no name for it: it asks the dereferenced schema
  for its title with \<^verbatim>\<open>alternative_schema.get("title")\<close>, which a boolean does not have,
  and raises \<^verbatim>\<open>AttributeError\<close>.  The same boolean schema given as the alternative itself
  takes the other branch of the loop and is named \<^verbatim>\<open>Alternative #1\<close>.  The titles A, A, B
  give the names A, A(2), B.
\<close>

theorem alternative_names_reference_to_boolean:
  "get_one_of_alternative_names 1000
       [JDict [(''$ref'', JStr ''#/definitions/t'')]]
       (JDict [(''definitions'', JDict [(''t'', JBool True)])])
     = Inl AttributeError
   \<and> extract_schema_by_schema_path 1000 []
       (JDict [(''definitions'', JDict [(''t'', JBool True)])])
       (JDict [(''$ref'', JStr ''#/definitions/t'')])
     = Inr (JBool True)
   \<and> get_one_of_alternative_names 1000
       [JBool True]
       (JDict [(''definitions'', JDict [(''t'', JBool True)])])
     = Inr [NStr ''Alternative #1'']
   \<and> get_one_of_alternative_names (Suc depth) [titled ''A'', titled ''A'', titled ''B''] full
     = Inr [NStr ''A'', NStr ''A(2)'', NStr ''B'']"
proof (intro conjI)
  have deref: "extract_schema_by_schema_path 1000 []
       (JDict [(''definitions'', JDict [(''t'', JBool True)])])
       (JDict [(''$ref'', JStr ''#/definitions/t'')])
     = Inr (JBool True)"
    by code_simp
  then show "extract_schema_by_schema_path 1000 []
       (JDict [(''definitions'', JDict [(''t'', JBool True)])])
       (JDict [(''$ref'', JStr ''#/definitions/t'')])
     = Inr (JBool True)" .
  show "get_one_of_alternative_names 1000
       [JDict [(''$ref'', JStr ''#/definitions/t'')]]
       (JDict [(''definitions'', JDict [(''t'', JBool True)])])
     = Inl AttributeError"
    unfolding get_one_of_alternative_names_def names_loop.simps alternative_name_def json.case deref
    by simp
  show "get_one_of_alternative_names 1000
       [JBool True]
       (JDict [(''definitions'', JDict [(''t'', JBool True)])])
     = Inr [NStr ''Alternative #1'']"
    by (simp add: get_one_of_alternative_names_def alternative_name_def fallback_name_def
        Let_def str_nat_digit)
  show "get_one_of_alternative_names (Suc depth) [titled ''A'', titled ''A'', titled ''B''] full
     = Inr [NStr ''A'', NStr ''A(2)'', NStr ''B'']"
    by (simp add: get_one_of_alternative_names_def alternative_name_titled Let_def str_nat_digit)
qed

section \<open>The too-many-satisfied case\<close>

lemma satisfied_loop_filter:
  "satisfied_loop V schema inst (zip (map NStr names) alts) acc
     = acc @ map NStr (spec_satisfied_names V schema inst names alts)"
  unfolding spec_satisfied_names_def
proof (induction names arbitrary: alts acc)
  case Nil
  then show ?case by simp
next
  case (Cons n names)
  then show ?case by (cases alts) simp_all
qed

lemma spec_satisfied_names_none:
  assumes "\<forall>a\<in>set alts. \<not> is_valid_for_sub_schema V schema a inst"
  shows "spec_satisfied_names V schema inst names alts = []"
proof -
  have "filter (\<lambda>(n, a). is_valid_for_sub_schema V schema a inst) (zip names alts) = []"
    using assms by (auto simp: filter_empty_conv dest: set_zip_rightD)
  then show ?thesis by (simp add: spec_satisfied_names_def)
qed

text \<open>
  Claim C3.  For a \<^verbatim>\<open>oneOf\<close> error with an empty context whose alternatives have the
  names \<open>names\<close>, the body of the message is exactly one line: \<^verbatim>\<open>Must be exactly one of:\<close>
  with the names joined by comma and space, and appended to it the sentence
  \<^verbatim>\<open>.  Content satisfied more than one alternative: <satisfied>.\<close>, where the satisfied
  names are those whose alternative \<^verbatim>\<open>_is_valid_for_sub_schema\<close> reports valid for the
  error's instance, in order.  The composer puts the location in front of this single
  line.  When no alternative is reported valid the sentence is still there, with an
  empty list.
\<close>

theorem too_many_satisfied_body:
  assumes names: "get_one_of_alternative_names depth alts schema = Inr (map NStr names)"
  shows "one_of_too_many_alternatives_satisfied_message_lines V depth alts inst schema
           = Inr [spec_too_many_line names (spec_satisfied_names V schema inst names alts)]
         \<and> validation_error_to_message_lines V depth
             (ValidationError ''oneOf'' path sp inst alts [] msg) schema
           = Inr [''In '' @ spec_locate path @ '': ''
                    @ spec_too_many_line names (spec_satisfied_names V schema inst names alts)]
         \<and> ((\<forall>a\<in>set alts. \<not> is_valid_for_sub_schema V schema a inst) \<longrightarrow>
              one_of_too_many_alternatives_satisfied_message_lines V depth alts inst schema
                = Inr [''Must be exactly one of: '' @ str_join '', '' names
                         @ ''.  Content satisfied more than one alternative: .''])"
proof -
  have body: "one_of_too_many_alternatives_satisfied_message_lines V depth alts inst schema
           = Inr [spec_too_many_line names (spec_satisfied_names V schema inst names alts)]"
    using satisfied_loop_filter [of V schema inst names alts "[]"]
    by (simp add: one_of_too_many_alternatives_satisfied_message_lines_def names
        join_names_NStr spec_too_many_line_def)
  have none: "one_of_too_many_alternatives_satisfied_message_lines V depth alts inst schema
                = Inr [''Must be exactly one of: '' @ str_join '', '' names
                         @ ''.  Content satisfied more than one alternative: .'']"
    if "\<forall>a\<in>set alts. \<not> is_valid_for_sub_schema V schema a inst"
    using spec_satisfied_names_none [OF that, of names]
    by (simp add: body spec_too_many_line_def)
  from body none show ?thesis
    by (simp add: instance_path_to_description_locate)
qed

theorem too_many_satisfied_body_witness:
  "validation_error_to_message_lines (\<lambda>full sub inst. True) 1
      (ValidationError ''oneOf'' [TStr ''graph''] [TStr ''oneOf''] JNull [titled ''X'', titled ''Y''] [] ''m'') JNull
     = Inr [''In graph section: Must be exactly one of: X, Y.  Content satisfied more than one alternative: X, Y.'']"
proof -
  have names: "get_one_of_alternative_names 1 [titled ''X'', titled ''Y''] JNull = Inr (map NStr [''X'', ''Y''])"
    by (simp add: get_one_of_alternative_names_def alternative_name_titled)
  from too_many_satisfied_body [OF names, of "\<lambda>full sub inst. True" JNull "[TStr ''graph'']" "[TStr ''oneOf'']" "''m''"]
  show ?thesis
    by (simp add: spec_too_many_line_def spec_satisfied_names_def is_valid_for_sub_schema_def)
qed

section \<open>The none-satisfied case\<close>

lemma set_first_seen: "set (first_seen xs) = set xs"
  by (induction xs) auto

lemma distinct_first_seen: "distinct (first_seen xs)"
  by (induction xs) (auto simp: set_first_seen)

lemma first_seen_snoc:
  "first_seen (xs @ [x]) = (if x \<in> set xs then first_seen xs else first_seen xs @ [x])"
  by (induction xs) auto

lemma first_seen_map_inj: "inj f \<Longrightarrow> first_seen (map f xs) = map f (first_seen xs)"
  by (induction xs) (auto simp: filter_map comp_def inj_eq)

lemma first_seen_Nil_iff: "first_seen xs = [] \<longleftrightarrow> xs = []"
  by (cases xs) simp_all

lemma dd_append_map:
  "distinct ks \<Longrightarrow>
   dd_append k v (map (\<lambda>q. (q, f q)) ks)
     = (if k \<in> set ks then map (\<lambda>q. (q, if q = k then f q @ [v] else f q)) ks
        else map (\<lambda>q. (q, f q)) ks @ [(k, [v])])"
  by (induction ks) auto

lemma fold_dd_append:
  "fold (\<lambda>x. dd_append (k x) x) xs []
     = map (\<lambda>q. (q, filter (\<lambda>x. k x = q) xs)) (first_seen (map k xs))"
proof (induction xs rule: rev_induct)
  case Nil
  then show ?case by simp
next
  case (snoc x xs)
  let ?ks = "first_seen (map k xs)"
  have none: "filter (\<lambda>y. k y = k x) xs = []" if "k x \<notin> k ` set xs"
  proof -
    from that have "\<forall>y\<in>set xs. k y \<noteq> k x"
      by (metis imageI)
    then show ?thesis
      by (simp add: filter_empty_conv)
  qed
  show ?case
  proof (cases "k x \<in> k ` set xs")
    case True
    then show ?thesis
      by (simp add: snoc.IH dd_append_map distinct_first_seen set_first_seen first_seen_snoc)
  next
    case False
    have "map (\<lambda>q. (q, filter (\<lambda>y. k y = q) xs)) ?ks
        = map (\<lambda>q. (q, filter (\<lambda>y. k y = q) (xs @ [x]))) ?ks"
      using False by (auto simp: set_first_seen)
    with False show ?thesis
      by (simp add: snoc.IH dd_append_map distinct_first_seen set_first_seen first_seen_snoc none)
  qed
qed

lemma group_loop_fold:
  assumes "\<forall>x\<in>set xs. \<exists>i. n < length (absolute_schema_path (fst x))
             \<and> absolute_schema_path (fst x) ! n = TInt (int i) \<and> i < length names"
  shows "group_loop n (map NStr names) xs acc
           = Inr (fold (\<lambda>x. dd_append (NStr (spec_owner names n (fst x))) x) xs acc)"
  using assms
proof (induction xs arbitrary: acc)
  case Nil
  then show ?case by simp
next
  case (Cons x xs)
  from Cons.prems obtain i where i: "n < length (absolute_schema_path (fst x))"
    "absolute_schema_path (fst x) ! n = TInt (int i)" "i < length names"
    by auto
  have tok: "list_index (absolute_schema_path (fst x)) (int n) = Inr (TInt (int i))"
    using i by (simp add: list_index_def)
  have nm: "list_index (map NStr names) (int i) = Inr (NStr (spec_owner names n (fst x)))"
    using i by (simp add: list_index_def spec_owner_def)
  from Cons.prems have "\<forall>x\<in>set xs. \<exists>i. n < length (absolute_schema_path (fst x))
             \<and> absolute_schema_path (fst x) ! n = TInt (int i) \<and> i < length names"
    by simp
  from Cons.IH [OF this] show ?case
    by (simp add: tok nm)
qed

lemma indent_lines_spec: "indent_lines ls = map (\<lambda>line. ''    '' @ line) ls"
  by (simp add: indent_lines_def INDENT_SIZE_def eval_nat_numeral)

lemma alt_errors_lines_Inr:
  "alt_errors_lines (map (\<lambda>c. (c, Inr (sub c))) cs)
     = Inr (concat (map (\<lambda>c. indent_lines (sub c)) cs))"
  by (induction cs) simp_all

lemma errors_by_alt_lines_Inr:
  "errors_by_alt_lines (map (\<lambda>q. (NStr q, map (\<lambda>c. (c, Inr (sub c))) (F q))) qs)
     = Inr (concat (map (\<lambda>q. spec_header q # concat (map (\<lambda>c. indent_lines (sub c)) (F q))) qs))"
  by (induction qs) (simp_all add: alt_errors_lines_Inr spec_header_def)


lemma spec_none_satisfied_body_unfold:
  "spec_none_satisfied_body names n (map (\<lambda>c. (c, sub c)) ctx)
     = (''Must be exactly one of: '' @ str_join '', '' names @ ''; all alternatives failed validation.'')
       # concat (map (\<lambda>q. spec_header q
                            # concat (map (\<lambda>c. indent_lines (sub c))
                                        (filter (\<lambda>c. spec_owner names n c = q) ctx)))
                   (first_seen (map (spec_owner names n) ctx)))"
  by (simp add: spec_none_satisfied_body_def filter_map comp_def indent_lines_spec)

lemma none_satisfied_lines:
  assumes names: "get_one_of_alternative_names depth alts schema = Inr (map NStr names)"
    and ctx: "ctx \<noteq> []"
    and owner: "\<forall>c\<in>set ctx. \<exists>i. length sp < length (absolute_schema_path c)
                  \<and> absolute_schema_path c ! length sp = TInt (int i) \<and> i < length names"
  shows "one_of_no_alternatives_satisfied_message_lines depth alts sp
           (map (\<lambda>c. (c, Inr (sub c))) ctx) schema
         = Inr (spec_none_satisfied_body names (length sp) (map (\<lambda>c. (c, sub c)) ctx))"
proof -
  let ?n = "length sp"
  let ?g = "\<lambda>c. (c, Inr (sub c) :: error + string list)"
  let ?E = "map ?g ctx"
  let ?key = "\<lambda>x :: verror \<times> (error + string list). NStr (spec_owner names ?n (fst x))"
  let ?qs = "first_seen (map (spec_owner names ?n) ctx)"
  let ?F = "\<lambda>q. filter (\<lambda>c. spec_owner names ?n c = q) ctx"
  have "\<forall>x\<in>set ?E. \<exists>i. ?n < length (absolute_schema_path (fst x))
             \<and> absolute_schema_path (fst x) ! ?n = TInt (int i) \<and> i < length names"
    using owner by simp
  from group_loop_fold [OF this]
  have grouped: "group_loop ?n (map NStr names) ?E [] = Inr (fold (\<lambda>x. dd_append (?key x) x) ?E [])"
    by simp
  have keys: "first_seen (map ?key ?E) = map NStr ?qs"
  proof -
    have m: "map ?key ?E = map NStr (map (spec_owner names ?n) ctx)"
      by (simp add: comp_def)
    have "inj NStr"
      by (simp add: inj_def)
    then show ?thesis
      unfolding m by (rule first_seen_map_inj)
  qed
  have groups: "fold (\<lambda>x. dd_append (?key x) x) ?E [] = map (\<lambda>q. (NStr q, map ?g (?F q))) ?qs"
    unfolding fold_dd_append keys
    by (simp add: filter_map comp_def)
  have lines: "errors_by_alt_lines (fold (\<lambda>x. dd_append (?key x) x) ?E [])
      = Inr (concat (map (\<lambda>q. spec_header q # concat (map (\<lambda>c. indent_lines (sub c)) (?F q))) ?qs))"
    unfolding groups by (rule errors_by_alt_lines_Inr)
  show ?thesis
    unfolding spec_none_satisfied_body_unfold
    using ctx
    by (simp add: one_of_no_alternatives_satisfied_message_lines_def names join_names_NStr
        grouped lines)
qed

text \<open>
  Claim C2.  Take a \<^verbatim>\<open>oneOf\<close> error with a non-empty context, whose alternatives have
  the names \<open>names\<close>, every context error carrying at position \<open>length sp\<close> of its
  schema path (\<open>sp\<close> is the outer error's schema path) the integer index of an
  alternative, and every context error having the explanation \<open>sub c\<close>.  Then the body
  starts with the line \<^verbatim>\<open>Must be exactly one of: <names>; all alternatives failed
  validation.\<close>; each context error belongs to the alternative named by that index; for
  each name that owns a context error, in the order in which the names are first met,
  comes the header \<^verbatim>\<open>Errors associated with alternative "<name>":\<close> and then the
  explanations of its context errors, in context order, each line with four more spaces
  than the header.  The composer puts the location line in front and indents the body.
\<close>

theorem none_satisfied_body:
  assumes names: "get_one_of_alternative_names depth alts schema = Inr (map NStr names)"
    and ctx: "ctx \<noteq> []"
    and owner: "\<forall>c\<in>set ctx. \<exists>i. length sp < length (absolute_schema_path c)
                  \<and> absolute_schema_path c ! length sp = TInt (int i) \<and> i < length names"
    and sub: "\<forall>c\<in>set ctx. validation_error_to_message_lines V depth c schema = Inr (sub c)"
  shows "one_of_no_alternatives_satisfied_message_lines depth alts sp
           (map (\<lambda>c. (c, validation_error_to_message_lines V depth c schema)) ctx) schema
         = Inr (spec_none_satisfied_body names (length sp) (map (\<lambda>c. (c, sub c)) ctx))
       \<and> validation_error_to_message_lines V depth
           (ValidationError ''oneOf'' path sp inst alts ctx msg) schema
         = Inr ((''In '' @ spec_locate path @ '':'')
                # map (\<lambda>line. ''    '' @ line)
                    (spec_none_satisfied_body names (length sp) (map (\<lambda>c. (c, sub c)) ctx)))"
proof -
  let ?body = "spec_none_satisfied_body names (length sp) (map (\<lambda>c. (c, sub c)) ctx)"
  have E: "map (\<lambda>c. (c, validation_error_to_message_lines V depth c schema)) ctx
         = map (\<lambda>c. (c, Inr (sub c))) ctx"
    using sub by simp
  have body: "one_of_no_alternatives_satisfied_message_lines depth alts sp
           (map (\<lambda>c. (c, validation_error_to_message_lines V depth c schema)) ctx) schema
         = Inr ?body"
    unfolding E by (rule none_satisfied_lines [OF names ctx owner])
  have "first_seen (map (spec_owner names (length sp)) ctx) \<noteq> []"
    using ctx by (simp add: first_seen_Nil_iff)
  then have "length ?body \<noteq> 1"
    unfolding spec_none_satisfied_body_unfold by (cases "first_seen (map (spec_owner names (length sp)) ctx)") simp_all
  with body ctx show ?thesis
    by (simp add: instance_path_to_description_locate indent_lines_spec)
qed


theorem none_satisfied_body_witness:
  "validation_error_to_message_lines (\<lambda>full sub inst. False) 1
     (ValidationError ''oneOf'' [TStr ''graph'', TStr ''s1''] [TStr ''oneOf''] JNull
        [titled ''X'', titled ''Y'']
        [ValidationError ''type'' [TStr ''graph'', TStr ''s1''] [TStr ''oneOf'', TInt 1, TStr ''type''] JNull [] [] ''not a string'',
         ValidationError ''required'' [TStr ''graph'', TStr ''s1''] [TStr ''oneOf'', TInt 0, TStr ''required''] JNull [] [] ''no task'',
         ValidationError ''minLength'' [TStr ''graph'', TStr ''s1''] [TStr ''oneOf'', TInt 1, TStr ''minLength''] JNull [] [] ''too short'']
        ''is not valid under any of the given schemas'')
     JNull
   = Inr [''In step \"s1\":'',
          ''    Must be exactly one of: X, Y; all alternatives failed validation.'',
          ''    Errors associated with alternative \"Y\":'',
          ''        In step \"s1\": not a string'',
          ''        In step \"s1\": too short'',
          ''    Errors associated with alternative \"X\":'',
          ''        In step \"s1\": no task'']"
proof -
  let ?V = "\<lambda>full sub inst. False"
  let ?c1 = "ValidationError ''type'' [TStr ''graph'', TStr ''s1''] [TStr ''oneOf'', TInt 1, TStr ''type''] JNull [] [] ''not a string''"
  let ?c2 = "ValidationError ''required'' [TStr ''graph'', TStr ''s1''] [TStr ''oneOf'', TInt 0, TStr ''required''] JNull [] [] ''no task''"
  let ?c3 = "ValidationError ''minLength'' [TStr ''graph'', TStr ''s1''] [TStr ''oneOf'', TInt 1, TStr ''minLength''] JNull [] [] ''too short''"
  let ?sub = "\<lambda>c. [''In step \"s1\": '' @ message c]"
  have names: "get_one_of_alternative_names 1 [titled ''X'', titled ''Y''] JNull
                 = Inr (map NStr [''X'', ''Y''])"
    by (simp add: get_one_of_alternative_names_def alternative_name_titled)
  have ctx: "[?c1, ?c2, ?c3] \<noteq> []"
    by simp
  have "\<exists>i. TInt 1 = TInt (int i) \<and> i < 2" "\<exists>i. TInt 0 = TInt (int i) \<and> i < 2"
    by (rule exI [of _ 1], simp) (rule exI [of _ 0], simp)
  then have owner: "\<forall>c\<in>set [?c1, ?c2, ?c3]. \<exists>i. length [TStr ''oneOf''] < length (absolute_schema_path c)
                  \<and> absolute_schema_path c ! length [TStr ''oneOf''] = TInt (int i)
                  \<and> i < length [''X'', ''Y'']"
    by simp
  have sub: "\<forall>c\<in>set [?c1, ?c2, ?c3]. validation_error_to_message_lines ?V 1 c JNull = Inr (?sub c)"
    by (simp add: instance_path_to_description_locate)
  from none_satisfied_body [OF names ctx owner sub, of "[TStr ''graph'', TStr ''s1'']" JNull
      "''is not valid under any of the given schemas''"]
  show ?thesis
    by (simp add: spec_none_satisfied_body_def spec_owner_def spec_header_def)
qed

section \<open>Falsy path components and the resolver\<close>

text \<open>
  Claim C1 on the code.  In the document \<^verbatim>\<open>{"oneOf": [{"title": "A"}, {"title": "B"}]}\<close>
  the path \<^verbatim>\<open>["oneOf", 0]\<close> addresses the first alternative: the step into the list with
  the index \<^verbatim>\<open>0\<close> gives \<^verbatim>\<open>{"title": "A"}\<close>.  \<^verbatim>\<open>_extract_schema_by_schema_path\<close> returns the
  whole list instead: \<^verbatim>\<open>not next_path_component\<close> holds for the component \<^verbatim>\<open>0\<close> as it does
  for an exhausted path.  The index \<^verbatim>\<open>1\<close> is followed.  In general, at a list the
  component \<^verbatim>\<open>0\<close> and the component \<^verbatim>\<open>""\<close> end the traversal with the list itself, whatever
  follows them in the path.
\<close>

theorem extract_stops_at_index_zero:
  "extract_schema_by_schema_path 1000 [TStr ''oneOf'', TInt 0]
       (JDict [(''oneOf'', JList [titled ''A'', titled ''B''])]) JNull
     = Inr (JList [titled ''A'', titled ''B''])
   \<and> subscript (JList [titled ''A'', titled ''B'']) (TInt 0) = Inr (titled ''A'')
   \<and> extract_schema_by_schema_path 1000 [TStr ''oneOf'', TInt 1]
       (JDict [(''oneOf'', JList [titled ''A'', titled ''B''])]) JNull
     = Inr (titled ''B'')
   \<and> extract_schema_by_schema_path (Suc depth) (TInt 0 # rest) full (JList xs) = Inr (JList xs)
   \<and> extract_schema_by_schema_path (Suc depth) (TStr [] # rest) full (JList xs) = Inr (JList xs)"
proof (intro conjI)
  show "extract_schema_by_schema_path 1000 [TStr ''oneOf'', TInt 0]
       (JDict [(''oneOf'', JList [titled ''A'', titled ''B''])]) JNull
     = Inr (JList [titled ''A'', titled ''B''])"
    by code_simp
  show "subscript (JList [titled ''A'', titled ''B'']) (TInt 0) = Inr (titled ''A'')"
    by (simp add: list_index_def)
  show "extract_schema_by_schema_path 1000 [TStr ''oneOf'', TInt 1]
       (JDict [(''oneOf'', JList [titled ''A'', titled ''B''])]) JNull
     = Inr (titled ''B'')"
    by code_simp
  show "extract_schema_by_schema_path (Suc depth) (TInt 0 # rest) full (JList xs) = Inr (JList xs)"
    by simp
  show "extract_schema_by_schema_path (Suc depth) (TStr [] # rest) full (JList xs) = Inr (JList xs)"
    by simp
qed

text \<open>
  Claim C4 on the code.  In the document \<^verbatim>\<open>{"definitions": {"x": {"title": "T"}}}\<close> the
  reference \<^verbatim>\<open>#/definitions/\<close> has the path \<^verbatim>\<open>["definitions", ""]\<close>.  Resolving \<^verbatim>\<open>["x"]\<close>
  against the node \<^verbatim>\<open>{"$ref": "#/definitions/"}\<close> returns the mapping under
  \<^verbatim>\<open>definitions\<close>: the empty component ends the traversal and the rest of the path is
  dropped.  Resolving the reference first returns the same mapping, and resolving
  \<^verbatim>\<open>["x"]\<close> against that returns \<^verbatim>\<open>{"title": "T"}\<close>.  The two ways differ.
\<close>

theorem extract_reference_with_empty_component:
  "extract_schema_by_schema_path 1000 [TStr ''x'']
       (JDict [(''definitions'', JDict [(''x'', titled ''T'')])])
       (JDict [(''$ref'', JStr ''#/definitions/'')])
     = Inr (JDict [(''x'', titled ''T'')])
   \<and> extract_schema_by_reference 1000 (JStr ''#/definitions/'')
       (JDict [(''definitions'', JDict [(''x'', titled ''T'')])])
     = Inr (JDict [(''x'', titled ''T'')])
   \<and> extract_schema_by_schema_path 1000 [TStr ''x'']
       (JDict [(''definitions'', JDict [(''x'', titled ''T'')])])
       (JDict [(''x'', titled ''T'')])
     = Inr (titled ''T'')"
  by code_simp

text \<open>
  Claim C9 on the code.  In the document \<^verbatim>\<open>{"items": []}\<close> the path \<^verbatim>\<open>["items", 0]\<close> has a
  step that does not exist: the index \<^verbatim>\<open>0\<close> is out of range for the empty list, and
  the subscript raises \<^verbatim>\<open>IndexError\<close>.  \<^verbatim>\<open>_extract_schema_by_schema_path\<close> does not reach
  the subscript and returns the empty list.  The index \<^verbatim>\<open>1\<close> does raise a lookup error.
\<close>

theorem extract_missing_index_zero:
  "extract_schema_by_schema_path 1000 [TStr ''items'', TInt 0]
       (JDict [(''items'', JList [])]) JNull
     = Inr (JList [])
   \<and> subscript (JList []) (TInt 0) = Inl IndexError
   \<and> extract_schema_by_schema_path 1000 [TStr ''items'', TInt 1]
       (JDict [(''items'', JList [])]) JNull
     = Inl IndexError
   \<and> is_lookup_error IndexError
   \<and> extract_schema_by_schema_path (Suc depth) (TInt 0 # rest) full (JList []) = Inr (JList [])"
proof (intro conjI)
  show "extract_schema_by_schema_path 1000 [TStr ''items'', TInt 0]
       (JDict [(''items'', JList [])]) JNull
     = Inr (JList [])"
    by code_simp
  show "subscript (JList []) (TInt 0) = Inl IndexError"
    by (simp add: list_index_def)
  show "extract_schema_by_schema_path 1000 [TStr ''items'', TInt 1]
       (JDict [(''items'', JList [])]) JNull
     = Inl IndexError"
    by code_simp
  show "is_lookup_error IndexError"
    by simp
  show "extract_schema_by_schema_path (Suc depth) (TInt 0 # rest) full (JList []) = Inr (JList [])"
    by simp
qed

section \<open>Names that collide with a suffixed name\<close>

text \<open>
  Claim C5 on the code.  For the titles A, A and A(2) the second alternative is renamed
  to A(2), and the third keeps its title A(2), which was not counted before: two of the
  three names are the same.
\<close>

theorem alternative_names_collide:
  "get_one_of_alternative_names (Suc depth) [titled ''A'', titled ''A'', titled ''A(2)''] full
     = Inr [NStr ''A'', NStr ''A(2)'', NStr ''A(2)'']
   \<and> \<not> distinct [NStr ''A'', NStr ''A(2)'', NStr ''A(2)'']"
  by (simp add: get_one_of_alternative_names_def alternative_name_titled Let_def str_nat_digit)

section \<open>The frame of the composer on the store\<close>

lemma frame_of_refl: "frame_of st st"
  by (simp add: frame_of_def)

lemma frame_of_trans:
  assumes "frame_of st st'" and "frame_of st' st''"
  shows "frame_of st st''"
proof -
  from assms have l: "length st \<le> length st'" "length st' \<le> length st''"
    and t: "take (length st) st' = st" "take (length st') st'' = st'"
    by (simp_all add: frame_of_def)
  have "take (length st) st'' = take (length st) (take (length st') st'')"
    using l by (simp add: min_def)
  also have "\<dots> = st"
    using t by simp
  finally show ?thesis
    using l by (simp add: frame_of_def)
qed

lemma frame_of_nth:
  assumes "frame_of st st'" and "a < length st"
  shows "st' ! a = st ! a"
proof -
  have "take (length st) st' ! a = st' ! a"
    using assms(2) by simp
  with assms(1) show ?thesis
    by (simp add: frame_of_def)
qed

lemma frame_of_append: "frame_of st (st @ xs)"
  by (simp add: frame_of_def)

lemma frame_of_update: "frame_of st st' \<Longrightarrow> length st \<le> a \<Longrightarrow> frame_of st (st'[a := c])"
  by (simp add: frame_of_def)

lemma indent_lines_snoc:
  "k < length ls \<Longrightarrow>
   (indent_lines (take k ls) @ drop k ls)[k := replicate INDENT_SIZE CHR '' '' @ ls ! k]
     = indent_lines (take (Suc k) ls) @ drop (Suc k) ls"
proof -
  assume k: "k < length ls"
  have len: "length (indent_lines (take k ls)) = k"
    using k by (simp add: indent_lines_def)
  have d: "drop k ls = ls ! k # drop (Suc k) ls"
    using k by (simp add: Cons_nth_drop_Suc)
  have t: "take (Suc k) ls = take k ls @ [ls ! k]"
    using k by (simp add: take_Suc_conv_app_nth)
  show ?thesis
    unfolding d t using len
    by (simp add: list_update_append indent_lines_def)
qed

lemma fold_indent_line_at:
  assumes "a < length st" and "st ! a = Lines ls" and "k \<le> length ls"
  shows "fold (indent_line_at a) [0..<k] st
           = st[a := Lines (indent_lines (take k ls) @ drop k ls)]"
  using assms(3)
proof (induction k)
  case 0
  have "st[a := st ! a] = st"
    by (rule list_update_id)
  with assms show ?case
    by (simp add: indent_lines_def)
next
  case (Suc k)
  then have k: "k < length ls" by simp
  let ?mid = "indent_lines (take k ls) @ drop k ls"
  have len: "length (indent_lines (take k ls)) = k"
    using k by (simp add: indent_lines_def)
  have midk: "?mid ! k = ls ! k"
    using k len by (simp add: nth_append)
  have step: "indent_line_at a k (st[a := Lines ?mid])
        = st[a := Lines (indent_lines (take (Suc k) ls) @ drop (Suc k) ls)]"
    unfolding indent_line_at_def lines_at_def
    using assms(1) indent_lines_snoc [OF k] midk by simp
  from Suc k have "fold (indent_line_at a) [0..<k] st = st[a := Lines ?mid]"
    by simp
  then show ?case
    using step by simp
qed

lemma indent_lines_st_eq:
  assumes "a < length st" and "st ! a = Lines ls"
  shows "indent_lines_st a st = (a, st[a := Lines (indent_lines ls)])"
  using fold_indent_line_at [OF assms, of "length ls"] assms
  by (simp add: indent_lines_st_def lines_at_def)


lemma frame_ofI:
  assumes "length st \<le> length st'" and "\<And>a. a < length st \<Longrightarrow> st' ! a = st ! a"
  shows "frame_of st st'"
  using assms by (simp add: frame_of_def list_eq_iff_nth_eq)

lemma groups_rel_pair:
  "groups_rel (k, vs) (k', vs') \<longleftrightarrow> k = k' \<and> list_all2 context_rel vs vs'"
  by (simp add: groups_rel_def)

lemma dd_append_rel:
  assumes "list_all2 groups_rel acc acc'" and "context_rel x y"
  shows "list_all2 groups_rel (dd_append k x acc) (dd_append k y acc')"
  using assms(1)
proof (induction acc acc' rule: list_all2_induct)
  case Nil
  with assms(2) show ?case by (simp add: groups_rel_pair)
next
  case (Cons g gs g' gs')
  obtain k1 vs where g: "g = (k1, vs)" by (cases g)
  obtain k2 vs' where g': "g' = (k2, vs')" by (cases g')
  from Cons(1) g g' have k: "k2 = k1" and vs: "list_all2 context_rel vs vs'"
    by (simp_all add: groups_rel_pair)
  show ?case
  proof (cases "k1 = k")
    case True
    with vs assms(2) Cons(2) show ?thesis
      by (simp add: g g' k groups_rel_pair list_all2_appendI)
  next
    case False
    with vs Cons show ?thesis
      by (simp add: g g' k groups_rel_pair)
  qed
qed

lemma group_loop_rel:
  assumes "list_all2 context_rel xs ys" and "list_all2 groups_rel acc acc'"
  shows "rel_sum (=) (list_all2 groups_rel) (group_loop n names xs acc) (group_loop n names ys acc')"
  using assms
proof (induction xs ys arbitrary: acc acc' rule: list_all2_induct)
  case Nil
  then show ?case by simp
next
  case (Cons x xs y ys)
  from Cons(1) have f: "fst y = fst x"
    by (simp add: context_rel_def)
  show ?case
  proof (cases "list_index (absolute_schema_path (fst x)) (int n)")
    case (Inl e)
    then show ?thesis by (simp add: f)
  next
    case (Inr t)
    show ?thesis
    proof (cases t)
      case (TStr s)
      with Inr show ?thesis by (simp add: f)
    next
      case (TInt i)
      show ?thesis
      proof (cases "list_index names i")
        case (Inl e)
        with Inr TInt show ?thesis by (simp add: f)
      next
        case nm: (Inr alt_name)
        from dd_append_rel [OF Cons.prems Cons(1)]
        have "list_all2 groups_rel (dd_append alt_name x acc) (dd_append alt_name y acc')" .
        from Cons.IH [OF this] Inr TInt nm show ?thesis
          by (simp add: f)
      qed
    qed
  qed
qed


lemma alt_errors_st_fills:
  assumes "list_all2 context_rel xs ys" and "ml < length st" and "st ! ml = Lines L"
  shows "fills ml (alt_errors_st ml xs st) st (alt_errors_lines ys)"
  using assms
proof (induction xs ys arbitrary: st L rule: list_all2_induct)
  case Nil
  then show ?case
    by (simp add: fills_def lines_at_def)
next
  case (Cons x xs y ys)
  obtain r1 st1 where run: "snd x st = (r1, st1)"
    by (cases "snd x st")
  from Cons(1) have rl: "returns_lines (r1, st1) st (snd y)"
    by (simp add: context_rel_def run [symmetric])
  show ?case
  proof (cases r1)
    case (Inl e)
    with rl have fr: "frame_of st st1" and y: "snd y = Inl e"
      by (simp_all add: returns_lines_def)
    have "length st \<le> length st1"
      using fr by (simp add: frame_of_def)
    then show ?thesis
      using run Inl y frame_of_nth [OF fr] by (simp add: fills_def)
  next
    case (Inr sub)
    with rl obtain ls where fr: "frame_of st st1" and sub: "length st \<le> sub" "sub < length st1"
      and y: "snd y = Inr ls" and cell: "st1 ! sub = Lines ls"
      by (auto simp: returns_lines_def split: sum.splits)
    let ?st2 = "st1[sub := Lines (indent_lines ls)]"
    let ?st3 = "?st2[ml := Lines (L @ indent_lines ls)]"
    have ind: "indent_lines_st sub st1 = (sub, ?st2)"
      by (rule indent_lines_st_eq [OF sub(2) cell])
    have "st1 ! ml = st ! ml"
      by (rule frame_of_nth [OF fr Cons.prems(1)])
    moreover have "length st \<le> length st1"
      using fr by (simp add: frame_of_def)
    ultimately have ml1: "st1 ! ml = Lines L" "ml < length st1" "ml \<noteq> sub"
      using Cons.prems sub by simp_all
    have ext: "list_extend_st ml sub ?st2 = ?st3"
      using ml1 sub by (simp add: list_extend_st_def lines_at_def)
    have step: "alt_errors_st ml (x # xs) st = alt_errors_st ml xs ?st3"
      by (simp add: run Inr ind ext)
    have ih: "fills ml (alt_errors_st ml xs ?st3) ?st3 (alt_errors_lines ys)"
      by (rule Cons.IH [of ?st3 "L @ indent_lines ls"]) (use ml1 in simp_all)
    have old: "?st3 ! a = st ! a" if "a < length st" "a \<noteq> ml" for a
      using that sub frame_of_nth [OF fr that(1)] by simp
    have len: "length st \<le> length ?st3"
      using fr by (simp add: frame_of_def)
    have at3: "lines_at ?st3 ml = L @ indent_lines ls"
      using ml1 by (simp add: lines_at_def)
    have at0: "lines_at st ml = L"
      using Cons.prems by (simp add: lines_at_def)
    from ih show ?thesis
      unfolding step fills_def at3 at0
      using old len y by (auto split: sum.splits)
  qed
qed


lemma errors_by_alt_st_fills:
  assumes "list_all2 groups_rel gs gs'" and "ml < length st" and "st ! ml = Lines L"
  shows "fills ml (errors_by_alt_st ml gs st) st (errors_by_alt_lines gs')"
  using assms
proof (induction gs gs' arbitrary: st L rule: list_all2_induct)
  case Nil
  then show ?case
    by (simp add: fills_def lines_at_def)
next
  case (Cons g gs g' gs')
  obtain k vs where g: "g = (k, vs)" by (cases g)
  obtain k' vs' where g': "g' = (k', vs')" by (cases g')
  from Cons(1) have k: "k' = k" and vs: "list_all2 context_rel vs vs'"
    by (simp_all add: g g' groups_rel_pair)
  define header where "header = ''Errors associated with alternative \"'' @ str_name k @ ''\":''"
  define st1 where "st1 = st[ml := Lines (L @ [header])]"
  have app: "list_append_st ml header st = st1"
    using Cons.prems by (simp add: list_append_st_def lines_at_def st1_def)
  have st1: "length st1 = length st" "st1 ! ml = Lines (L @ [header])"
    "\<And>a. a \<noteq> ml \<Longrightarrow> st1 ! a = st ! a"
    using Cons.prems by (simp_all add: st1_def)
  obtain r1 st2 where run: "alt_errors_st ml vs st1 = (r1, st2)"
    by (cases "alt_errors_st ml vs st1")
  have "fills ml (alt_errors_st ml vs st1) st1 (alt_errors_lines vs')"
    by (rule alt_errors_st_fills [OF vs, of ml st1 "L @ [header]"]) (use Cons.prems st1 in simp_all)
  then have f1: "length st \<le> length st2"
    "\<And>a. a < length st \<Longrightarrow> a \<noteq> ml \<Longrightarrow> st2 ! a = st ! a"
    and c1: "(case r1 of
               Inl e \<Rightarrow> alt_errors_lines vs' = Inl e
             | Inr u \<Rightarrow> (case alt_errors_lines vs' of
                           Inl e \<Rightarrow> False
                         | Inr new \<Rightarrow> st2 ! ml = Lines ((L @ [header]) @ new)))"
    by (auto simp: fills_def run lines_at_def st1 split: sum.splits)
  have at0: "lines_at st ml = L"
    using Cons.prems by (simp add: lines_at_def)
  have step: "errors_by_alt_st ml (g # gs) st
      = (case r1 of Inl e \<Rightarrow> (Inl e, st2) | Inr u \<Rightarrow> errors_by_alt_st ml gs st2)"
    unfolding g errors_by_alt_st.simps header_def [symmetric] app run
    by (cases r1) simp_all
  have pure: "errors_by_alt_lines (g' # gs')
      = (case alt_errors_lines vs' of
           Inl e \<Rightarrow> Inl e
         | Inr lines \<Rightarrow>
             (case errors_by_alt_lines gs' of
                Inl e \<Rightarrow> Inl e
              | Inr more \<Rightarrow> Inr (header # lines @ more)))"
    unfolding g' k errors_by_alt_lines.simps header_def [symmetric]
    by (rule refl)
  show ?case
  proof (cases r1)
    case (Inl e)
    with c1 have "alt_errors_lines vs' = Inl e" by simp
    then show ?thesis
      unfolding step pure using f1 Inl by (simp add: fills_def)
  next
    case (Inr u)
    with c1 obtain new where new: "alt_errors_lines vs' = Inr new"
      and cell: "st2 ! ml = Lines ((L @ [header]) @ new)"
      by (auto split: sum.splits)
    have ml2: "ml < length st2"
      using f1(1) Cons.prems by simp
    have ih: "fills ml (errors_by_alt_st ml gs st2) st2 (errors_by_alt_lines gs')"
      by (rule Cons.IH [OF ml2 cell])
    have at2: "lines_at st2 ml = (L @ [header]) @ new"
      using cell by (simp add: lines_at_def)
    from ih show ?thesis
      unfolding step pure fills_def at2 at0 new Inr
      using f1 by (auto split: sum.splits)
  qed
qed


lemma returns_lines_raise: "frame_of st st' \<Longrightarrow> returns_lines (Inl e, st') st (Inl e)"
  by (simp add: returns_lines_def)

lemma one_of_no_alternatives_satisfied_st_returns:
  assumes rel: "list_all2 context_rel xs ys"
  shows "returns_lines (one_of_no_alternatives_satisfied_st depth alts sp xs schema st) st
           (one_of_no_alternatives_satisfied_message_lines depth alts sp ys schema)"
proof -
  define ml where "ml = length st"
  define st0 where "st0 = st @ [Lines []]"
  have new: "new_list [] st = (ml, st0)"
    by (simp add: new_list_def ml_def st0_def)
  have fr0: "frame_of st st0"
    by (simp add: st0_def frame_of_append)
  show ?thesis
  proof (cases "get_one_of_alternative_names depth alts schema")
    case (Inl e)
    then show ?thesis
      by (simp add: one_of_no_alternatives_satisfied_st_def new
          one_of_no_alternatives_satisfied_message_lines_def returns_lines_raise [OF fr0])
  next
    case names: (Inr alt_names)
    show ?thesis
    proof (cases "join_names '', '' alt_names")
      case (Inl e)
      with names show ?thesis
        by (simp add: one_of_no_alternatives_satisfied_st_def new
            one_of_no_alternatives_satisfied_message_lines_def returns_lines_raise [OF fr0])
    next
      case joined: (Inr joined)
      define basic where
        "basic = ''Must be exactly one of: '' @ joined @ ''; all alternatives failed validation.''"
      define st1 where "st1 = st0[ml := Lines [basic]]"
      have app: "list_append_st ml basic st0 = st1"
        by (simp add: list_append_st_def lines_at_def st1_def st0_def ml_def)
      have st1: "length st1 = Suc (length st)" "st1 ! ml = Lines [basic]" "ml < length st1"
        "\<And>a. a < length st \<Longrightarrow> st1 ! a = st ! a"
        by (simp_all add: st1_def st0_def ml_def nth_append)
      have fr1: "frame_of st st1"
        by (rule frame_ofI) (simp_all add: st1)
      have run: "one_of_no_alternatives_satisfied_st depth alts sp xs schema st
          = (if xs = [] then (Inl AssertionError, st1)
             else (case group_loop (length sp) alt_names xs [] of
                     Inl e \<Rightarrow> (Inl e, st1)
                   | Inr errors_by_alt \<Rightarrow>
                       (case errors_by_alt_st ml errors_by_alt st1 of
                          (Inl e, st2) \<Rightarrow> (Inl e, st2)
                        | (Inr u, st2) \<Rightarrow> (Inr ml, st2))))"
        unfolding one_of_no_alternatives_satisfied_st_def new names joined prod.case sum.case
          Let_def basic_def [symmetric] app
        by (rule refl)
      have pure: "one_of_no_alternatives_satisfied_message_lines depth alts sp ys schema
          = (if ys = [] then Inl AssertionError
             else (case group_loop (length sp) alt_names ys [] of
                     Inl e \<Rightarrow> Inl e
                   | Inr errors_by_alt \<Rightarrow>
                       (case errors_by_alt_lines errors_by_alt of
                          Inl e \<Rightarrow> Inl e
                        | Inr lines \<Rightarrow> Inr (basic # lines))))"
        unfolding one_of_no_alternatives_satisfied_message_lines_def names joined sum.case
          Let_def basic_def [symmetric]
        by (rule refl)
      have empty: "(xs = []) = (ys = [])"
        using rel by (cases xs; cases ys) simp_all
      show ?thesis
      proof (cases "xs = []")
        case True
        with empty show ?thesis
          unfolding run pure by (simp add: returns_lines_raise [OF fr1])
      next
        case False
        from group_loop_rel [OF rel, of "[]" "[]" "length sp" alt_names]
        have grel: "rel_sum (=) (list_all2 groups_rel)
             (group_loop (length sp) alt_names xs []) (group_loop (length sp) alt_names ys [])"
          by simp
        show ?thesis
        proof (cases "group_loop (length sp) alt_names xs []")
          case (Inl e)
          with grel have "group_loop (length sp) alt_names ys [] = Inl e"
            by (cases "group_loop (length sp) alt_names ys []") simp_all
          with Inl False empty show ?thesis
            unfolding run pure by (simp add: returns_lines_raise [OF fr1])
        next
          case (Inr gs)
          with grel obtain gs' where gs': "group_loop (length sp) alt_names ys [] = Inr gs'"
            and g: "list_all2 groups_rel gs gs'"
            by (cases "group_loop (length sp) alt_names ys []") simp_all
          obtain r2 st2 where out: "errors_by_alt_st ml gs st1 = (r2, st2)"
            by (cases "errors_by_alt_st ml gs st1")
          from errors_by_alt_st_fills [OF g st1(3) st1(2)]
          have f: "length st1 \<le> length st2"
            "\<And>a. a < length st1 \<Longrightarrow> a \<noteq> ml \<Longrightarrow> st2 ! a = st1 ! a"
            and c: "(case r2 of
                      Inl e \<Rightarrow> errors_by_alt_lines gs' = Inl e
                    | Inr u \<Rightarrow> (case errors_by_alt_lines gs' of
                                  Inl e \<Rightarrow> False
                                | Inr new \<Rightarrow> st2 ! ml = Lines ([basic] @ new)))"
            using st1(2) by (auto simp: fills_def out lines_at_def split: sum.splits)
          have fr2: "frame_of st st2"
          proof (rule frame_ofI)
            show "length st \<le> length st2"
              using f(1) st1(1) by simp
            fix a assume a: "a < length st"
            then have "st2 ! a = st1 ! a"
              using f(2) [of a] st1(1) by (simp add: ml_def)
            with a show "st2 ! a = st ! a"
              by (simp add: st1(4))
          qed
          show ?thesis
          proof (cases r2)
            case (Inl e)
            with c have "errors_by_alt_lines gs' = Inl e" by simp
            with Inl False empty Inr gs' out show ?thesis
              unfolding run pure by (simp add: returns_lines_raise [OF fr2])
          next
            case r2: (Inr u)
            with c obtain lines where lines: "errors_by_alt_lines gs' = Inr lines"
              and cell: "st2 ! ml = Lines ([basic] @ lines)"
              by (auto split: sum.splits)
            have "ml < length st2" "length st \<le> ml"
              using f(1) st1 by (simp_all add: ml_def)
            with r2 False empty Inr gs' out lines cell fr2 show ?thesis
              unfolding run pure by (simp add: returns_lines_def)
          qed
        qed
      qed
    qed
  qed
qed


lemma returns_lines_new_list:
  "returns_lines (case new_list ls st of (a, st') \<Rightarrow> (Inr a, st')) st (Inr ls)"
  by (simp add: new_list_def returns_lines_def frame_of_append)

lemma one_of_too_many_alternatives_satisfied_st_returns:
  "returns_lines (one_of_too_many_alternatives_satisfied_st V depth alts inst schema st) st
     (one_of_too_many_alternatives_satisfied_message_lines V depth alts inst schema)"
  using returns_lines_new_list
  by (simp add: one_of_too_many_alternatives_satisfied_st_def returns_lines_raise frame_of_refl
      split: sum.splits)

text \<open>What the last step of the composer does with the list \<open>what_lines\<close>.\<close>

lemma message_lines_st_returns:
  assumes w: "returns_lines (rw, st1) st what"
  shows "returns_lines
           (case (rw, st1) of
              (Inl e, st1) \<Rightarrow> (Inl e, st1)
            | (Inr what_lines, st1) \<Rightarrow>
                if length (lines_at st1 what_lines) = 1
                then (case new_list [pre @ loc @ sep @ lines_at st1 what_lines ! 0] st1 of
                        (message_lines, st2) \<Rightarrow> (Inr message_lines, st2))
                else (case new_list [header] st1 of
                        (message_lines, st2) \<Rightarrow>
                          (case indent_lines_st what_lines st2 of
                             (indented, st3) \<Rightarrow>
                               (Inr message_lines, list_extend_st message_lines indented st3))))
           st
           (case what of
              Inl e \<Rightarrow> Inl e
            | Inr what_lines \<Rightarrow>
                if length what_lines = 1 then Inr [pre @ loc @ sep @ what_lines ! 0]
                else Inr (header # indent_lines what_lines))"
proof (cases rw)
  case (Inl e)
  with w show ?thesis
    by (simp add: returns_lines_def)
next
  case (Inr a)
  with w obtain ls where fr: "frame_of st st1" and a: "length st \<le> a" "a < length st1"
    and what: "what = Inr ls" and cell: "st1 ! a = Lines ls"
    by (auto simp: returns_lines_def split: sum.splits)
  have at: "lines_at st1 a = ls"
    using cell by (simp add: lines_at_def)
  have len: "length st \<le> length st1"
    using fr by (simp add: frame_of_def)
  show ?thesis
  proof (cases "length ls = 1")
    case True
    have "frame_of st (st1 @ [Lines [pre @ loc @ sep @ ls ! 0]])"
      by (rule frame_of_trans [OF fr frame_of_append])
    with True len show ?thesis
      by (simp add: Inr at what new_list_def returns_lines_def)
  next
    case False
    define ml where "ml = length st1"
    define st2 where "st2 = st1 @ [Lines [header]]"
    define st3 where "st3 = st2[a := Lines (indent_lines ls)]"
    define st4 where "st4 = st3[ml := Lines (header # indent_lines ls)]"
    have new: "new_list [header] st1 = (ml, st2)"
      by (simp add: new_list_def ml_def st2_def)
    have "a < length st2" "st2 ! a = Lines ls"
      using a cell by (simp_all add: st2_def nth_append)
    then have ind: "indent_lines_st a st2 = (a, st3)"
      unfolding st3_def by (rule indent_lines_st_eq)
    have ext: "list_extend_st ml a st3 = st4"
      using a by (simp add: list_extend_st_def lines_at_def st4_def st3_def st2_def ml_def)
    have "frame_of st st2"
      unfolding st2_def by (rule frame_of_trans [OF fr frame_of_append])
    then have "frame_of st st3"
      unfolding st3_def using a(1) by (rule frame_of_update)
    then have fr4: "frame_of st st4"
      unfolding st4_def using len by (intro frame_of_update) (simp_all add: ml_def)
    have cell4: "st4 ! ml = Lines (header # indent_lines ls)" "ml < length st4" "length st \<le> ml"
      using len by (simp_all add: st4_def st3_def st2_def ml_def)
    from False fr4 cell4 show ?thesis
      by (simp add: Inr at what new ind ext returns_lines_def)
  qed
qed

lemma validation_error_to_message_lines_st_returns:
  "returns_lines (validation_error_to_message_lines_st V depth error schema st) st
     (validation_error_to_message_lines V depth error schema)"
proof (induction error arbitrary: st)
  case (ValidationError v path sp inst alts ctx msg)
  define what_st where "what_st =
     (if v = ''oneOf'' then
        (if ctx \<noteq> [] then
           one_of_no_alternatives_satisfied_st depth alts sp
             (map (\<lambda>ctx_error.
                     (ctx_error, \<lambda>st'. validation_error_to_message_lines_st V depth ctx_error schema st'))
                ctx)
             schema st
         else one_of_too_many_alternatives_satisfied_st V depth alts inst schema st)
      else (case new_list [msg] st of (a, st') \<Rightarrow> (Inr a, st')))"
  define what where "what =
     (if v = ''oneOf'' then
        (if ctx \<noteq> [] then
           one_of_no_alternatives_satisfied_message_lines depth alts sp
             (map (\<lambda>ctx_error. (ctx_error, validation_error_to_message_lines V depth ctx_error schema))
                ctx)
             schema
         else one_of_too_many_alternatives_satisfied_message_lines V depth alts inst schema)
      else Inr [msg])"
  have rel: "list_all2 context_rel
      (map (\<lambda>ctx_error.
              (ctx_error, \<lambda>st'. validation_error_to_message_lines_st V depth ctx_error schema st'))
         ctx)
      (map (\<lambda>ctx_error. (ctx_error, validation_error_to_message_lines V depth ctx_error schema))
         ctx)"
    using ValidationError.IH
    by (simp add: list_all2_map1 list_all2_map2 list_all2_same context_rel_def)
  have w: "returns_lines what_st st what"
    unfolding what_st_def what_def
    using one_of_no_alternatives_satisfied_st_returns [OF rel]
      one_of_too_many_alternatives_satisfied_st_returns returns_lines_new_list
    by simp
  obtain rw st1 where out: "what_st = (rw, st1)"
    by (cases what_st)
  from w have "returns_lines (rw, st1) st what"
    by (simp add: out)
  from message_lines_st_returns [OF this,
      of "''In ''" "spec_locate path" "'': ''" "''In '' @ spec_locate path @ '':''"]
  show ?case
    unfolding validation_error_to_message_lines_st.simps validation_error_to_message_lines.simps
      instance_path_to_description_locate sum.case what_st_def [symmetric] what_def [symmetric] out .
qed


lemma validation_error_to_message_st_returns:
  assumes "st ! error_at = Failure error" and "st ! schema_at = Document schema"
  shows "returns_value (validation_error_to_message_st V depth error_at schema_at st) st
           (validation_error_to_message V depth error schema)"
proof -
  obtain r st1 where out: "validation_error_to_message_lines_st V depth error schema st = (r, st1)"
    by (cases "validation_error_to_message_lines_st V depth error schema st")
  from validation_error_to_message_lines_st_returns [of V depth error schema st]
  have "returns_lines (r, st1) st (validation_error_to_message_lines V depth error schema)"
    by (simp add: out)
  then show ?thesis
    using assms
    by (cases r)
      (auto simp: validation_error_to_message_st_def validation_error_to_message_def out
        returns_lines_def returns_value_def lines_at_def split: sum.splits)
qed

lemma messages_of_st_returns:
  assumes "list_all2 (\<lambda>a e. a < length st \<and> st ! a = Failure e) errors_at errors"
    and "schema_at < length st" and "st ! schema_at = Document schema"
  shows "returns_value (messages_of_st V depth errors_at schema_at st) st
           (messages_of V depth errors schema)"
  using assms
proof (induction errors_at arbitrary: errors st)
  case Nil
  then show ?case
    by (simp add: returns_value_def frame_of_refl)
next
  case (Cons a as)
  from Cons.prems(1) obtain e es where errors: "errors = e # es"
    and a: "a < length st" "st ! a = Failure e"
    and rest: "list_all2 (\<lambda>a e. a < length st \<and> st ! a = Failure e) as es"
    by (auto simp: list_all2_Cons1)
  obtain r1 st1 where out1: "validation_error_to_message_st V depth a schema_at st = (r1, st1)"
    by (cases "validation_error_to_message_st V depth a schema_at st")
  from validation_error_to_message_st_returns [OF a(2) Cons.prems(3), of V depth]
  have fr1: "frame_of st st1" and r1: "r1 = validation_error_to_message V depth e schema"
    by (simp_all add: returns_value_def out1)
  show ?case
  proof (cases r1)
    case (Inl x)
    with fr1 show ?thesis
      by (simp add: errors out1 returns_value_def r1 [symmetric])
  next
    case (Inr m)
    have len: "length st \<le> length st1"
      using fr1 by (simp add: frame_of_def)
    have "list_all2 (\<lambda>a e. a < length st1 \<and> st1 ! a = Failure e) as es"
      using rest len frame_of_nth [OF fr1]
      by (auto elim!: list_all2_mono)
    moreover have "schema_at < length st1" "st1 ! schema_at = Document schema"
      using Cons.prems len frame_of_nth [OF fr1] by simp_all
    ultimately have ih: "returns_value (messages_of_st V depth as schema_at st1) st1
           (messages_of V depth es schema)"
      by (rule Cons.IH)
    obtain r2 st2 where out2: "messages_of_st V depth as schema_at st1 = (r2, st2)"
      by (cases "messages_of_st V depth as schema_at st1")
    from ih have fr2: "frame_of st1 st2" and r2: "r2 = messages_of V depth es schema"
      by (simp_all add: returns_value_def out2)
    have "frame_of st st2"
      by (rule frame_of_trans [OF fr1 fr2])
    with Inr show ?thesis
      by (cases "messages_of V depth es schema")
        (simp_all add: errors out1 out2 returns_value_def r1 [symmetric] r2)
  qed
qed

text \<open>
  Claim C10.  Let the store hold the schema document at \<open>schema_at\<close> and the validation
  errors at the addresses \<open>errors_at\<close>, besides whatever else the caller owns.  After
  \<^verbatim>\<open>validation_errors_to_message\<close>, and after \<^verbatim>\<open>validation_error_to_message\<close> for any of the
  errors, whether the call returns or raises, every object that was in the store before
  the call is there unchanged (\<open>frame_of\<close>), among them the schema document and the
  errors, and the result is the one of the value model.  For
  \<^verbatim>\<open>_validation_error_to_message_lines\<close> the list returned is a list that did not exist
  before the call: the lists that \<^verbatim>\<open>_indent_lines\<close>, \<^verbatim>\<open>append\<close> and \<^verbatim>\<open>extend\<close> write in place
  are lists the functions made themselves.  The locator, the resolver, the namer and the
  probe are called from these functions; they read their arguments and build values.
\<close>

theorem core_leaves_inputs_unchanged:
  assumes "schema_at < length st" and "st ! schema_at = Document schema"
    and "list_all2 (\<lambda>a e. a < length st \<and> st ! a = Failure e) errors_at errors"
  shows "(case validation_errors_to_message_st V depth errors_at schema_at st of
            (r, st') \<Rightarrow>
              frame_of st st' \<and> st' ! schema_at = Document schema
              \<and> list_all2 (\<lambda>a e. st' ! a = Failure e) errors_at errors
              \<and> r = validation_errors_to_message V depth errors schema)
       \<and> list_all2
           (\<lambda>a e. case validation_error_to_message_st V depth a schema_at st of
                     (r, st') \<Rightarrow>
                       frame_of st st' \<and> st' ! schema_at = Document schema
                       \<and> st' ! a = Failure e
                       \<and> r = validation_error_to_message V depth e schema)
           errors_at errors
       \<and> returns_lines (validation_error_to_message_lines_st V depth error schema st) st
           (validation_error_to_message_lines V depth error schema)"
proof (intro conjI)
  obtain r st' where out: "messages_of_st V depth errors_at schema_at st = (r, st')"
    by (cases "messages_of_st V depth errors_at schema_at st")
  from messages_of_st_returns [OF assms(3,1,2), of V depth]
  have fr: "frame_of st st'" and r: "r = messages_of V depth errors schema"
    by (simp_all add: returns_value_def out)
  have "list_all2 (\<lambda>a e. st' ! a = Failure e) errors_at errors"
    using assms(3) frame_of_nth [OF fr] by (auto elim!: list_all2_mono)
  moreover have "st' ! schema_at = Document schema"
    using assms(1,2) frame_of_nth [OF fr] by simp
  ultimately show "case validation_errors_to_message_st V depth errors_at schema_at st of
            (r, st') \<Rightarrow>
              frame_of st st' \<and> st' ! schema_at = Document schema
              \<and> list_all2 (\<lambda>a e. st' ! a = Failure e) errors_at errors
              \<and> r = validation_errors_to_message V depth errors schema"
    using fr
    by (cases "messages_of V depth errors schema")
      (simp_all add: validation_errors_to_message_st_def validation_errors_to_message_def out r)
next
  show "list_all2
           (\<lambda>a e. case validation_error_to_message_st V depth a schema_at st of
                     (r, st') \<Rightarrow>
                       frame_of st st' \<and> st' ! schema_at = Document schema
                       \<and> st' ! a = Failure e
                       \<and> r = validation_error_to_message V depth e schema)
           errors_at errors"
    using assms(3)
  proof (rule list_all2_mono)
    fix a e assume ae: "a < length st \<and> st ! a = Failure e"
    obtain r st' where out: "validation_error_to_message_st V depth a schema_at st = (r, st')"
      by (cases "validation_error_to_message_st V depth a schema_at st")
    from ae have e: "st ! a = Failure e"
      by simp
    from validation_error_to_message_st_returns [OF e assms(2), of V depth]
    have fr: "frame_of st st'" and r: "r = validation_error_to_message V depth e schema"
      by (simp_all add: returns_value_def out)
    with ae assms(1,2) frame_of_nth [OF fr]
    show "case validation_error_to_message_st V depth a schema_at st of
            (r, st') \<Rightarrow>
              frame_of st st' \<and> st' ! schema_at = Document schema
              \<and> st' ! a = Failure e
              \<and> r = validation_error_to_message V depth e schema"
      by (simp add: out)
  qed
next
  show "returns_lines (validation_error_to_message_lines_st V depth error schema st) st
           (validation_error_to_message_lines V depth error schema)"
    by (rule validation_error_to_message_lines_st_returns)
qed


theorem core_leaves_inputs_unchanged_witness:
  "(case validation_errors_to_message_st (\<lambda>full sub inst. False) 1 [1] 0
           [Document JNull,
            Failure (ValidationError ''oneOf'' [TStr ''graph'', TStr ''s1''] [TStr ''oneOf''] JNull
                       [titled ''X'', titled ''Y'']
                       [ValidationError ''type'' [TStr ''graph'', TStr ''s1'']
                          [TStr ''oneOf'', TInt 1, TStr ''type''] JNull [] [] ''not a string'']
                       ''is not valid under any of the given schemas''),
            Lines [''a list of the caller'']] of
      (r, st') \<Rightarrow>
        take 3 st'
          = [Document JNull,
             Failure (ValidationError ''oneOf'' [TStr ''graph'', TStr ''s1''] [TStr ''oneOf''] JNull
                        [titled ''X'', titled ''Y'']
                        [ValidationError ''type'' [TStr ''graph'', TStr ''s1'']
                           [TStr ''oneOf'', TInt 1, TStr ''type''] JNull [] [] ''not a string'']
                        ''is not valid under any of the given schemas''),
             Lines [''a list of the caller'']]
        \<and> r = Inr (''In step \"s1\":'' @ [CHR 0x0A]
                   @ ''    Must be exactly one of: X, Y; all alternatives failed validation.'' @ [CHR 0x0A]
                   @ ''    Errors associated with alternative \"Y\":'' @ [CHR 0x0A]
                   @ ''        In step \"s1\": not a string''))"
proof -
  let ?V = "\<lambda>full sub inst. False"
  let ?e = "ValidationError ''oneOf'' [TStr ''graph'', TStr ''s1''] [TStr ''oneOf''] JNull
              [titled ''X'', titled ''Y'']
              [ValidationError ''type'' [TStr ''graph'', TStr ''s1'']
                 [TStr ''oneOf'', TInt 1, TStr ''type''] JNull [] [] ''not a string'']
              ''is not valid under any of the given schemas''"
  let ?st = "[Document JNull, Failure ?e, Lines [''a list of the caller'']]"
  have message: "validation_errors_to_message ?V 1 [?e] JNull
      = Inr (''In step \"s1\":'' @ [CHR 0x0A]
             @ ''    Must be exactly one of: X, Y; all alternatives failed validation.'' @ [CHR 0x0A]
             @ ''    Errors associated with alternative \"Y\":'' @ [CHR 0x0A]
             @ ''        In step \"s1\": not a string'')"
    by code_simp
  have h1: "0 < length ?st" and h2: "?st ! 0 = Document JNull"
    and h3: "list_all2 (\<lambda>a e. a < length ?st \<and> ?st ! a = Failure e) [1] [?e]"
    by simp_all
  obtain r st' where out: "validation_errors_to_message_st ?V 1 [1] 0 ?st = (r, st')"
    by (cases "validation_errors_to_message_st ?V 1 [1] 0 ?st")
  from conjunct1 [OF core_leaves_inputs_unchanged [OF h1 h2 h3, of ?V 1 ?e]]
  have "frame_of ?st st' \<and> st' ! 0 = Document JNull
        \<and> list_all2 (\<lambda>a e. st' ! a = Failure e) [1] [?e]
        \<and> r = validation_errors_to_message ?V 1 [?e] JNull"
    unfolding out prod.case .
  then have fr: "frame_of ?st st'" and r: "r = validation_errors_to_message ?V 1 [?e] JNull"
    by blast+
  from fr have "take (length ?st) st' = ?st"
    by (simp only: frame_of_def)
  moreover have "length ?st = 3"
    by simp
  ultimately have t: "take 3 st' = ?st"
    by (simp only:)
  from t r [unfolded message] show ?thesis
    unfolding out prod.case by (rule conjI)
qed

end
